theory Spec2Isabelle
  imports Main "HOL-Library.Sublist" "HOL-Library.Multiset" "HOL-Library.AList"
    "HOL-Library.Char_ord" "HOL-Library.List_Lexorder"
begin

section \<open>Python values and library functions the scraper relies on\<close>

text \<open>
  File names, URLs, links and log messages are strings: lists of characters with code
  points below 256. The text of a page is a list of Unicode code points, see below.
  Exceptions are values:
  \<open>exn_kind\<close> says which \<open>except\<close> clause of \<open>download_item\<close> catches
  the exception (\<open>asyncio.TimeoutError\<close>, \<open>aiohttp.ClientError\<close>, or any other
  subclass of \<open>Exception\<close>), \<open>exn_type\<close> is what \<open>{type(e)}\<close> prints and
  \<open>exn_text\<close> what \<open>{e}\<close> prints.
\<close>

datatype exn_kind = TimeoutKind | ClientKind | OtherKind

datatype exn = Exn (exn_kind: exn_kind) (exn_type: string) (exn_text: string)

definition quoted :: "string \<Rightarrow> string" where
  "quoted s = CHR 0x27 # s @ [CHR 0x27]"

definition class_repr :: "string \<Rightarrow> string" where
  "class_repr name = ''<class '' @ quoted name @ ''>''"

text \<open>\<open>repr\<close> of a string, as it appears in the message of a \<open>ValueError\<close>.\<close>

definition hex_digit :: "nat \<Rightarrow> char" where
  "hex_digit n = ''0123456789abcdef'' ! (n mod 16)"

definition printable :: "char \<Rightarrow> bool" where
  "printable c = (let n = (of_char c :: nat) in
     (32 \<le> n \<and> n < 127) \<or> (161 \<le> n \<and> n \<noteq> 173))"

definition repr_char :: "char \<Rightarrow> char \<Rightarrow> string" where
  "repr_char q c =
     (if c = q \<or> c = CHR 0x5C then [CHR 0x5C, c]
      else if c = CHR 0x09 then [CHR 0x5C, CHR ''t'']
      else if c = CHR 0x0A then [CHR 0x5C, CHR ''n'']
      else if c = CHR 0x0D then [CHR 0x5C, CHR ''r'']
      else if printable c then [c]
      else [CHR 0x5C, CHR ''x'', hex_digit (of_char c div 16), hex_digit (of_char c)])"

definition py_repr :: "string \<Rightarrow> string" where
  "py_repr s =
     (let q = (if CHR 0x27 \<in> set s \<and> CHR 0x22 \<notin> set s then CHR 0x22 else CHR 0x27)
      in q # concat (map (repr_char q) s) @ [q])"

definition value_error :: "string \<Rightarrow> exn" where
  "value_error lit =
     Exn OtherKind (class_repr ''ValueError'')
       (''invalid literal for int() with base 10: '' @ py_repr lit)"

definition key_error :: "string \<Rightarrow> exn" where
  "key_error k = Exn OtherKind (class_repr ''KeyError'') (py_repr k)"

subsection \<open>\<open>str\<close> of an integer\<close>

definition digit_char :: "nat \<Rightarrow> char" where
  "digit_char d = ''0123456789'' ! (d mod 10)"

function str_nat :: "nat \<Rightarrow> string" where
  "str_nat n = (if n < 10 then [digit_char n] else str_nat (n div 10) @ [digit_char n])"
  by pat_completeness auto
termination
  by (relation "measure (\<lambda>n. n)") auto

declare str_nat.simps [simp del]

definition str_int :: "int \<Rightarrow> string" where
  "str_int i = (if i < 0 then CHR ''-'' # str_nat (nat (- i)) else str_nat (nat i))"

subsection \<open>\<open>int\<close> of a string\<close>

text \<open>
  \<open>int(s)\<close> in base 10: white space around the literal is skipped, one sign is allowed,
  then come decimal digits, with single underscores allowed between digits. Anything else
  is a \<open>ValueError\<close>, here \<open>None\<close>.
\<close>

definition is_digit :: "char \<Rightarrow> bool" where
  "is_digit c = (48 \<le> (of_char c :: nat) \<and> (of_char c :: nat) \<le> 57)"

definition is_space :: "char \<Rightarrow> bool" where
  "is_space c = (c \<in> set [CHR 0x09, CHR 0x0A, CHR 0x0B, CHR 0x0C, CHR 0x0D, CHR 0x20,
                             CHR 0x85, CHR 0xA0])"

definition digit_val :: "char \<Rightarrow> nat" where
  "digit_val c = of_char c - 48"

definition digits_val :: "string \<Rightarrow> nat" where
  "digits_val ds = foldl (\<lambda>acc c. 10 * acc + digit_val c) 0 ds"

fun no_double_underscore :: "string \<Rightarrow> bool" where
  "no_double_underscore (a # b # cs) =
     (\<not> (a = CHR ''_'' \<and> b = CHR ''_'') \<and> no_double_underscore (b # cs))"
| "no_double_underscore cs = True"

definition py_int :: "string \<Rightarrow> int option" where
  "py_int s =
     (let s1 = dropWhile is_space s;
          neg = (s1 \<noteq> [] \<and> hd s1 = CHR ''-'');
          s2 = (if s1 \<noteq> [] \<and> (hd s1 = CHR ''+'' \<or> hd s1 = CHR ''-'') then tl s1 else s1);
          body = takeWhile (\<lambda>c. is_digit c \<or> c = CHR ''_'') s2;
          rest = dropWhile (\<lambda>c. is_digit c \<or> c = CHR ''_'') s2
      in if body = [] \<or> hd body = CHR ''_'' \<or> last body = CHR ''_''
            \<or> \<not> no_double_underscore body \<or> dropWhile is_space rest \<noteq> []
         then None
         else let v = int (digits_val (filter is_digit body))
              in Some (if neg then - v else v))"

subsection \<open>Substring test and the file name patterns\<close>

text \<open>\<open>sub in s\<close> for strings.\<close>

fun contains :: "string \<Rightarrow> string \<Rightarrow> bool" where
  "contains sub [] = (sub = [])"
| "contains sub (c # cs) = (prefix sub (c # cs) \<or> contains sub cs)"

text \<open>
  \<open>re.search(prefix + r'\d+\.html', name)\<close> for a literal prefix: somewhere in the name the
  prefix is followed by one or more digits and then by \<open>.html\<close>. The digits are matched
  greedily, and since \<open>.\<close> is no digit, giving digits back never helps.
\<close>

definition match_here :: "string \<Rightarrow> string \<Rightarrow> bool" where
  "match_here pre s =
     (prefix pre s \<and>
      (let r = drop (length pre) s
       in takeWhile is_digit r \<noteq> [] \<and> prefix ''.html'' (dropWhile is_digit r)))"

fun re_search :: "string \<Rightarrow> string \<Rightarrow> bool" where
  "re_search pre [] = match_here pre []"
| "re_search pre (c # cs) = (match_here pre (c # cs) \<or> re_search pre cs)"

subsection \<open>Text and UTF-8\<close>

text \<open>
  The text of a page is a list of Unicode code points (numbers below 0x110000), and a
  file holds bytes. \<open>s.encode('utf-8')\<close> gives one byte for a code point below 0x80,
  two below 0x800, three below 0x10000 and four from there on. A surrogate (0xD800 to
  0xDFFF) has no encoding: \<open>encode\<close> raises \<open>UnicodeEncodeError\<close>, whose message
  names the first run of surrogates.
\<close>

type_synonym unicode = "nat list"

definition surrogate :: "nat \<Rightarrow> bool" where
  "surrogate c = (0xD800 \<le> c \<and> c \<le> 0xDFFF)"

definition utf8_char :: "nat \<Rightarrow> string" where
  "utf8_char c =
     (if c < 0x80 then [char_of c]
      else if c < 0x800 then [char_of (0xC0 + c div 64), char_of (0x80 + c mod 64)]
      else if c < 0x10000
      then [char_of (0xE0 + c div 4096), char_of (0x80 + c div 64 mod 64),
            char_of (0x80 + c mod 64)]
      else [char_of (0xF0 + c div 262144), char_of (0x80 + c div 4096 mod 64),
            char_of (0x80 + c div 64 mod 64), char_of (0x80 + c mod 64)])"

definition hex4 :: "nat \<Rightarrow> string" where
  "hex4 c = [hex_digit (c div 4096), hex_digit (c div 256), hex_digit (c div 16), hex_digit c]"

definition unicode_encode_error :: "unicode \<Rightarrow> exn" where
  "unicode_encode_error s =
     (let i = length (takeWhile (\<lambda>c. \<not> surrogate c) s);
          n = length (takeWhile surrogate (drop i s))
      in Exn OtherKind (class_repr ''UnicodeEncodeError'')
           (quoted ''utf-8'' @ '' codec can'' @ [CHR 0x27] @ ''t encode ''
            @ (if n = 1
               then ''character '' @ quoted ([CHR 0x5C, CHR ''u''] @ hex4 (s ! i))
                    @ '' in position '' @ str_nat i
               else ''characters in position '' @ str_nat i @ ''-'' @ str_nat (i + n - 1))
            @ '': surrogates not allowed''))"

definition utf8 :: "unicode \<Rightarrow> exn + string" where
  "utf8 s = (if list_ex surrogate s then Inl (unicode_encode_error s)
             else Inr (concat (map utf8_char s)))"

section \<open>The world the scraper runs in\<close>

text \<open>
  A parsed page (\<open>BeautifulSoup\<close>) is known by what \<open>str\<close> gives for it and by its
  \<open>a\<close> elements in document order, each with its \<open>href\<close> attribute if it has one.
\<close>

record soup =
  soup_text :: unicode
  soup_anchors :: "string option list"

text \<open>What is fetched, \<open>item\<close> in \<open>f"{url_root}{item}"\<close>: a number or a link.\<close>

datatype pyval = PyNone | PyInt int | PyStr string

fun py_str :: "pyval \<Rightarrow> string" where
  "py_str PyNone = ''None''"
| "py_str (PyInt i) = str_int i"
| "py_str (PyStr s) = s"

text \<open>
  What is handed to \<open>write_data\<close>: \<open>None\<close>, the text of a sheet or a parsed page,
  with \<open>str(data)\<close> and the truth value of \<open>if data:\<close>; a \<open>BeautifulSoup\<close> object
  is always true.
\<close>

datatype data = NoData | TextData unicode | SoupData soup

fun data_str :: "data \<Rightarrow> unicode" where
  "data_str NoData = map of_char ''None''"
| "data_str (TextData t) = t"
| "data_str (SoupData d) = soup_text d"

fun truthy :: "data \<Rightarrow> bool" where
  "truthy NoData = False"
| "truthy (TextData t) = (t \<noteq> [])"
| "truthy (SoupData d) = True"

datatype response = Body unicode | Raises exn

text \<open>
  What goes wrong with a data file: nothing, \<open>aiofiles.open\<close> raises (the directory is
  missing, say; the program never creates its directories), or \<open>f.write\<close> raises.
\<close>

datatype io_fault = NoFault | OpenFails exn | WriteFails exn

text \<open>
  What the program does not decide: the answer to a GET of a URL (the body, or the
  exception raised by \<open>session.get\<close> or \<open>response.text\<close>), the HTML parser, the clock
  read by \<open>time.strftime('%c')\<close> (its n-th reading), what goes wrong with a data
  file, the draws of \<open>random.shuffle\<close>, the order in which a set is iterated, and the
  order in which the event loop resumes the tasks of \<open>asyncio.gather\<close>: for the
  defendant tasks and for the sheet tasks, the positions of the tasks resumed, one entry
  for each time a task is resumed.
\<close>

record env =
  http_get :: "string \<Rightarrow> response"
  html_parser :: "unicode \<Rightarrow> soup"
  clock :: "nat \<Rightarrow> string"
  io_fault :: "string \<Rightarrow> io_fault"
  rand_draw :: "nat \<Rightarrow> nat"
  set_order :: "string set \<Rightarrow> string list"
  defendant_schedule :: "nat list"
  sheet_schedule :: "nat list"

text \<open>
  The fields of \<open>AsyncioOrleansScraper\<close>, followed by the world it changes: the files
  (path and content: the bytes of a data file, the characters of the log file), the file
  handles that are open, the console, the number of clock readings made so far, and the
  URLs whose GET has ended, with an answer or with an exception, in that order.
\<close>

record state =
  start_num :: int
  end_num :: int
  defendant_path :: string
  docket_path :: string
  failed_urls :: "string list"
  completed_defendants :: "int list"
  log_file :: string
  log_buffer :: string
  log_len :: int
  max_tokens :: int
  rate :: int
  verbose :: bool
  links :: "string set"
  files :: "(string \<times> string) list"
  open_files :: "string list"
  stdout :: "string list"
  ticks :: nat
  requests :: "string list"

definition def_url :: string where
  "def_url = ''http://www.opcso.org/dcktmstr/dmdspscn.php?d1scnn=''"

definition sheet_url :: string where
  "sheet_url = ''http://www.opcso.org/dcktmstr/''"

text \<open>\<open>__init__\<close>, given the world the object is created in.\<close>

definition init :: "int \<Rightarrow> int \<Rightarrow> string \<Rightarrow> string \<Rightarrow> string \<Rightarrow> int \<Rightarrow> int \<Rightarrow> bool
    \<Rightarrow> (string \<times> string) list \<Rightarrow> state" where
  "init start_num' end_num' defendant_path' docket_path' log_file' max_tokens' rate' verbose' disk =
     \<lparr>start_num = start_num', end_num = end_num', defendant_path = defendant_path',
      docket_path = docket_path', failed_urls = [], completed_defendants = [],
      log_file = log_file', log_buffer = [], log_len = 0, max_tokens = max_tokens',
      rate = rate', verbose = verbose', links = {},
      files = disk, open_files = [], stdout = [], ticks = 0, requests = []\<rparr>"

text \<open>The default arguments of \<open>__init__\<close>.\<close>

definition init_default :: "(string \<times> string) list \<Rightarrow> state" where
  "init_default disk =
     init 633000 791264 ''defendants/'' ''dockets/'' ''log.txt'' 10 10 False disk"

subsection \<open>Files\<close>

definition read_file :: "string \<Rightarrow> state \<Rightarrow> string option" where
  "read_file p s = map_of (files s) p"

text \<open>
  \<open>open(p, 'wb')\<close> creates or truncates the file; \<open>open(p, 'a')\<close> then \<open>write\<close>
  appends. The log file is opened as text: it is kept as the characters written to it,
  whatever bytes the platform stores for them.
\<close>

definition put_file :: "string \<Rightarrow> string \<Rightarrow> state \<Rightarrow> state" where
  "put_file p bytes s = s\<lparr>files := AList.update p bytes (files s)\<rparr>"

definition append_file :: "string \<Rightarrow> string \<Rightarrow> state \<Rightarrow> state" where
  "append_file p bytes s =
     put_file p ((case read_file p s of None \<Rightarrow> [] | Some old \<Rightarrow> old) @ bytes) s"

text \<open>
  \<open>os.listdir(path)\<close>: the names of the files directly in the directory. Directory paths
  are written with their final separator, as the defaults \<open>defendants/\<close> and
  \<open>dockets/\<close> are, so the file written as \<open>path + name\<close> is listed as \<open>name\<close>.
\<close>

definition listdir :: "string \<Rightarrow> state \<Rightarrow> string list" where
  "listdir path s =
     filter (\<lambda>n. n \<noteq> [] \<and> CHR ''/'' \<notin> set n)
       (map (\<lambda>p. drop (length path) p) (filter (prefix path) (map fst (files s))))"

section \<open>The scraper\<close>

subsection \<open>Logging\<close>

definition strftime :: "env \<Rightarrow> state \<Rightarrow> string \<times> state" where
  "strftime e s = (clock e (ticks s), s\<lparr>ticks := Suc (ticks s)\<rparr>)"

definition write_log :: "state \<Rightarrow> state" where
  "write_log s =
     (let s1 = append_file (log_file s) (log_buffer s) s
      in s1\<lparr>log_buffer := [], log_len := 0\<rparr>)"

definition log :: "env \<Rightarrow> string \<Rightarrow> state \<Rightarrow> state" where
  "log e message s =
     (let s1 = (if verbose s
                then (let (t, sa) = strftime e s
                      in sa\<lparr>stdout := stdout sa @ [t, message]\<rparr>)
                else s);
          (t2, s2) = strftime e s1;
          s3 = s2\<lparr>log_buffer := log_buffer s2 @ t2\<rparr>;
          s4 = s3\<lparr>log_buffer := log_buffer s3 @ [CHR 0x0A] @ message @ [CHR 0x0A]\<rparr>
      in if log_len s4 > 100000 then write_log s4 else s4)"

subsection \<open>Fetching and writing\<close>

text \<open>
  \<open>download_item\<close>: the result is the response text, \<open>None\<close> after a timeout or a
  client error, or the exception that is raised again. \<open>self.failed_urls += url\<close>
  extends the list with the characters of the URL, one string each. The
  \<open>RateLimiter\<close> around the session delays the request and does not change its
  outcome; it is not part of this model.
\<close>

definition download_item :: "env \<Rightarrow> string \<Rightarrow> pyval \<Rightarrow> state \<Rightarrow> (exn + unicode option) \<times> state" where
  "download_item e url_root item s =
     (let s0 = log e (''downloading '' @ py_str item) s;
          url = url_root @ py_str item;
          s1 = s0\<lparr>requests := requests s0 @ [url]\<rparr>
      in case http_get e url of
           Body txt \<Rightarrow> (Inr (Some txt), s1)
         | Raises x \<Rightarrow>
             if exn_kind x = TimeoutKind \<or> exn_kind x = ClientKind
             then (let s2 = log e (''Timeout/ClientError downloading item '' @ url @ '': ''
                                   @ exn_type x) s1
                   in (Inr None, s2\<lparr>failed_urls := failed_urls s2 @ [url]\<rparr>))
             else (let s2 = s1\<lparr>failed_urls := failed_urls s1 @ map (\<lambda>c. [c]) url\<rparr>
                   in (Inl x, log e (''Exception downloading item '' @ url @ '': ''
                                     @ exn_type x) s2)))"

definition download_defendant :: "env \<Rightarrow> int \<Rightarrow> state \<Rightarrow> (exn + soup option) \<times> state" where
  "download_defendant e defendant s =
     (case download_item e def_url (PyInt defendant) s of
        (Inl x, s1) \<Rightarrow> (Inl x, s1)
      | (Inr def_data, s1) \<Rightarrow>
          (case def_data of
             None \<Rightarrow> (Inr None, s1)
           | Some txt \<Rightarrow> if txt \<noteq> [] then (Inr (Some (html_parser e txt)), s1)
                         else (Inr None, s1)))"

definition download_sheet :: "env \<Rightarrow> string \<Rightarrow> state \<Rightarrow> (exn + unicode option) \<times> state" where
  "download_sheet e link s = download_item e sheet_url (PyStr link) s"

text \<open>
  \<open>write_data\<close>: \<open>async with aiofiles.open(fname, 'wb') as f\<close> opens (and truncates) the
  file, or raises and leaves the disk as it is; the body encodes and writes if \<open>data\<close>
  is true; leaving the block closes the file, also when encoding or writing raises.
\<close>

definition open_wb :: "string \<Rightarrow> state \<Rightarrow> state" where
  "open_wb fname s = (put_file fname [] s)\<lparr>open_files := fname # open_files s\<rparr>"

definition close_file :: "string \<Rightarrow> state \<Rightarrow> state" where
  "close_file fname s = s\<lparr>open_files := remove1 fname (open_files s)\<rparr>"

definition write_data :: "env \<Rightarrow> data \<Rightarrow> string \<Rightarrow> state \<Rightarrow> (exn + unit) \<times> state" where
  "write_data e data fname s =
     (let s1 = log e (''Writing '' @ fname @ '' of length: ''
                      @ str_int (int (length (data_str data)))) s
      in case io_fault e fname of
           OpenFails x \<Rightarrow> (Inl x, s1)
         | fault \<Rightarrow>
             (let s2 = open_wb fname s1
              in if truthy data
                 then (case utf8 (data_str data) of
                         Inl x \<Rightarrow> (Inl x, close_file fname s2)
                       | Inr bytes \<Rightarrow>
                           (case fault of
                              WriteFails x \<Rightarrow> (Inl x, close_file fname s2)
                            | _ \<Rightarrow> (Inr (), close_file fname (put_file fname bytes s2))))
                 else (Inr (), close_file fname s2)))"

text \<open>\<open>[a['href'] for a in soup.find_all('a')]\<close>: an anchor without \<open>href\<close> is a \<open>KeyError\<close>.\<close>

fun hrefs :: "string option list \<Rightarrow> exn + string list" where
  "hrefs [] = Inr []"
| "hrefs (None # as) = Inl (key_error ''href'')"
| "hrefs (Some h # as) = (case hrefs as of Inl x \<Rightarrow> Inl x | Inr hs \<Rightarrow> Inr (h # hs))"

definition get_defendant_case_links :: "soup \<Rightarrow> exn + string set" where
  "get_defendant_case_links d =
     (case hrefs (soup_anchors d) of
        Inl x \<Rightarrow> Inl x
      | Inr hs \<Rightarrow> Inr (set (filter (contains ''666666.php'') hs)))"

definition download_defendant_data :: "env \<Rightarrow> int \<Rightarrow> state \<Rightarrow> (exn + unit) \<times> state" where
  "download_defendant_data e defendant s =
     (let handler = (\<lambda>x s'. (Inl x, log e (''Exception with defendant '' @ str_int defendant
                                            @ '': '' @ exn_type x) s'));
          fname = defendant_path s @ ''defendant'' @ str_int defendant @ ''.html''
      in case download_defendant e defendant s of
           (Inl x, s1) \<Rightarrow> handler x s1
         | (Inr None, s1) \<Rightarrow> (Inr (), s1)
         | (Inr (Some defendant_data), s1) \<Rightarrow>
             (case write_data e (SoupData defendant_data) fname s1 of
                (Inl x, s2) \<Rightarrow> handler x s2
              | (Inr _, s2) \<Rightarrow>
                  (case get_defendant_case_links defendant_data of
                     Inl x \<Rightarrow> handler x s2
                   | Inr ls \<Rightarrow> (Inr (), s2\<lparr>links := links s2 \<union> ls\<rparr>))))"

definition download_sheet_data :: "env \<Rightarrow> string \<Rightarrow> state \<Rightarrow> (exn + unit) \<times> state" where
  "download_sheet_data e link s =
     (let handler = (\<lambda>x s'. (Inl x, log e (''Exception with sheet '' @ link
                                            @ '': '' @ exn_type x) s'));
          fname = docket_path s @ ''docket'' @ drop (length link - 6) link @ ''.html''
      in case download_sheet e link s of
           (Inl x, s1) \<Rightarrow> handler x s1
         | (Inr None, s1) \<Rightarrow> (Inr (), s1)
         | (Inr (Some sheet_data), s1) \<Rightarrow>
             if sheet_data \<noteq> []
             then (case write_data e (TextData sheet_data) fname s1 of
                     (Inl x, s2) \<Rightarrow> handler x s2
                   | (Inr _, s2) \<Rightarrow> (Inr (), s2))
             else (Inr (), s1))"

subsection \<open>What is already on disk\<close>

text \<open>
  \<open>[int(i[:-5][-6:]) for i in os.listdir(path) if re.search(fpattern, i)]\<close>: the names
  that match, each without its last five characters, the last six of what is left read as
  an integer. The first name that does not read as one raises.
\<close>

definition id_window :: "string \<Rightarrow> string" where
  "id_window i = (let j = take (length i - 5) i in drop (length j - 6) j)"

fun downloaded :: "(string \<Rightarrow> bool) \<Rightarrow> string list \<Rightarrow> exn + int list" where
  "downloaded fpattern [] = Inr []"
| "downloaded fpattern (i # names) =
     (if fpattern i
      then (case py_int (id_window i) of
              None \<Rightarrow> Inl (value_error (id_window i))
            | Some k \<Rightarrow> (case downloaded fpattern names of
                           Inl x \<Rightarrow> Inl x
                         | Inr ks \<Rightarrow> Inr (k # ks)))
      else downloaded fpattern names)"

definition check_missing :: "int \<Rightarrow> int \<Rightarrow> string \<Rightarrow> (string \<Rightarrow> bool) \<Rightarrow> state \<Rightarrow> exn + int list" where
  "check_missing start stop path fpattern s =
     (case downloaded fpattern (listdir path s) of
        Inl x \<Rightarrow> Inl x
      | Inr ks \<Rightarrow> Inr (filter (\<lambda>j. j \<notin> set ks) [start..stop - 1]))"

definition check_missing_defendants :: "int \<Rightarrow> int \<Rightarrow> state \<Rightarrow> exn + int list" where
  "check_missing_defendants start stop s =
     check_missing start stop (defendant_path s) (re_search ''defendant'') s"

definition check_missing_sheets :: "int \<Rightarrow> int \<Rightarrow> state \<Rightarrow> exn + int list" where
  "check_missing_sheets start stop s =
     check_missing start stop (docket_path s) (re_search ''docket'') s"

definition check_range_downloaded :: "int \<Rightarrow> int \<Rightarrow> string \<Rightarrow> (string \<Rightarrow> bool) \<Rightarrow> state \<Rightarrow> exn + bool" where
  "check_range_downloaded start stop path fpattern s =
     (case downloaded fpattern (listdir path s) of
        Inl x \<Rightarrow> Inl x
      | Inr ks \<Rightarrow> Inr (start \<in> set ks \<or> stop \<in> set ks))"

definition check_defendant_range_downloaded :: "int \<Rightarrow> int \<Rightarrow> state \<Rightarrow> exn + bool" where
  "check_defendant_range_downloaded start stop s =
     check_range_downloaded start stop (defendant_path s) (re_search ''defendant'') s"

definition check_sheet_range_downloaded :: "int \<Rightarrow> int \<Rightarrow> state \<Rightarrow> exn + bool" where
  "check_sheet_range_downloaded start stop s =
     check_range_downloaded start stop (docket_path s) (re_search ''docket'') s"

subsection \<open>The run\<close>

text \<open>
  A task of \<open>asyncio.gather\<close> runs \<open>download_defendant_data\<close> for a defendant or
  \<open>download_sheet_data\<close> for a link. All tasks run on one thread: a task runs until it
  has to wait (for the answer to its GET, for the file to be opened, for the bytes to be
  written, for the file to be closed), and then another task runs. What a task has still
  to do is its position in the code: it waits for the answer, or it is inside
  \<open>write_data\<close> with the data it writes, waiting for the file to be opened, for the
  bytes to be written, or for the file to be closed (with the exception that is on its
  way out of the \<open>async with\<close> block, if there is one); or it has returned, or raised.
\<close>

datatype job = Defendant int | Sheet string

datatype pc = Fetching | Opening data | Writing data string | Closing data "exn option"
  | Done | Failed exn

fun job_item :: "job \<Rightarrow> pyval" where
  "job_item (Defendant defendant) = PyInt defendant"
| "job_item (Sheet link) = PyStr link"

fun job_url :: "job \<Rightarrow> string" where
  "job_url (Defendant defendant) = def_url @ str_int defendant"
| "job_url (Sheet link) = sheet_url @ link"

fun job_file :: "state \<Rightarrow> job \<Rightarrow> string" where
  "job_file s (Defendant defendant) =
     defendant_path s @ ''defendant'' @ str_int defendant @ ''.html''"
| "job_file s (Sheet link) =
     docket_path s @ ''docket'' @ drop (length link - 6) link @ ''.html''"

text \<open>What the task writes for the text it has fetched, if it writes.\<close>

fun job_data :: "env \<Rightarrow> job \<Rightarrow> unicode \<Rightarrow> data option" where
  "job_data e (Defendant defendant) b =
     (if b \<noteq> [] then Some (SoupData (html_parser e b)) else None)"
| "job_data e (Sheet link) b = (if b \<noteq> [] then Some (TextData b) else None)"

text \<open>The \<open>except Exception\<close> clause of the task: it logs and raises again.\<close>

fun raises :: "env \<Rightarrow> job \<Rightarrow> exn \<Rightarrow> state \<Rightarrow> pc \<times> state" where
  "raises e (Defendant defendant) x s =
     (Failed x, log e (''Exception with defendant '' @ str_int defendant
                       @ '': '' @ exn_type x) s)"
| "raises e (Sheet link) x s =
     (Failed x, log e (''Exception with sheet '' @ link @ '': '' @ exn_type x) s)"

text \<open>What follows \<open>write_data\<close> in the task.\<close>

fun after_write :: "env \<Rightarrow> job \<Rightarrow> data \<Rightarrow> state \<Rightarrow> pc \<times> state" where
  "after_write e (Defendant defendant) (SoupData defendant_data) s =
     (case get_defendant_case_links defendant_data of
        Inl x \<Rightarrow> raises e (Defendant defendant) x s
      | Inr ls \<Rightarrow> (Done, s\<lparr>links := links s \<union> ls\<rparr>))"
| "after_write e j data s = (Done, s)"

text \<open>
  A task starts by running up to its GET: it logs \<open>downloading\<close> and sends the request.
\<close>

definition start_task :: "env \<Rightarrow> job \<Rightarrow> state \<Rightarrow> state" where
  "start_task e j s = log e (''downloading '' @ py_str (job_item j)) s"

text \<open>
  \<open>resume\<close>: what the task does when the thing it waits for has happened, up to the next
  thing it waits for.
\<close>

fun resume :: "env \<Rightarrow> job \<Rightarrow> pc \<Rightarrow> state \<Rightarrow> pc \<times> state" where
  "resume e j Fetching s =
     (let url = job_url j;
          s1 = s\<lparr>requests := requests s @ [url]\<rparr>
      in case http_get e url of
           Body b \<Rightarrow>
             (case job_data e j b of
                None \<Rightarrow> (Done, s1)
              | Some data \<Rightarrow>
                  (Opening data,
                   log e (''Writing '' @ job_file s j @ '' of length: ''
                          @ str_int (int (length (data_str data)))) s1))
         | Raises x \<Rightarrow>
             if exn_kind x = TimeoutKind \<or> exn_kind x = ClientKind
             then (let s2 = log e (''Timeout/ClientError downloading item '' @ url @ '': ''
                                   @ exn_type x) s1
                   in (Done, s2\<lparr>failed_urls := failed_urls s2 @ [url]\<rparr>))
             else (let s2 = s1\<lparr>failed_urls := failed_urls s1 @ map (\<lambda>c. [c]) url\<rparr>
                   in raises e j x (log e (''Exception downloading item '' @ url @ '': ''
                                           @ exn_type x) s2)))"
| "resume e j (Opening data) s =
     (let fname = job_file s j
      in case io_fault e fname of
           OpenFails x \<Rightarrow> raises e j x s
         | fault \<Rightarrow>
             (let s1 = open_wb fname s
              in if truthy data
                 then (case utf8 (data_str data) of
                         Inl x \<Rightarrow> (Closing data (Some x), s1)
                       | Inr bytes \<Rightarrow> (Writing data bytes, s1))
                 else (Closing data None, s1)))"
| "resume e j (Writing data bytes) s =
     (let fname = job_file s j
      in case io_fault e fname of
           WriteFails x \<Rightarrow> (Closing data (Some x), s)
         | fault \<Rightarrow> (Closing data None, put_file fname bytes s))"
| "resume e j (Closing data pending) s =
     (let s1 = close_file (job_file s j) s
      in case pending of
           Some x \<Rightarrow> raises e j x s1
         | None \<Rightarrow> after_write e j data s1)"
| "resume e j Done s = (Done, s)"
| "resume e j (Failed x) s = (Failed x, s)"

declare raises.simps [simp del] after_write.simps [simp del] resume.simps [simp del]

text \<open>
  \<open>asyncio.gather\<close>, as a fan-out of tasks: where each task is, the first exception
  raised by a task, if any, and the state. The event loop resumes the task at a position
  of its choice; the first exception of a task is the one \<open>gather\<close> raises, and the other
  tasks are not cancelled by it.
\<close>

type_synonym fan_out = "pc list \<times> exn option \<times> state"

definition resume_task :: "env \<Rightarrow> job list \<Rightarrow> nat \<Rightarrow> fan_out \<Rightarrow> fan_out" where
  "resume_task e jobs i c =
     (case c of
        (pcs, raised, s) \<Rightarrow>
          if i < length jobs \<and> i < length pcs
          then (case resume e (jobs ! i) (pcs ! i) s of
                  (pc', s') \<Rightarrow>
                    (pcs[i := pc'],
                     (case raised of
                        None \<Rightarrow> (case pc' of Failed x \<Rightarrow> Some x | _ \<Rightarrow> None)
                      | Some y \<Rightarrow> Some y),
                     s'))
          else c)"

text \<open>
  The tasks that have not ended when the schedule is used up are resumed in turn, each
  until it ends, as long as no task has raised.
\<close>

fun finish_all :: "env \<Rightarrow> job list \<Rightarrow> nat list \<Rightarrow> fan_out \<Rightarrow> fan_out" where
  "finish_all e jobs [] c = c"
| "finish_all e jobs (i # rest) (pcs, raised, s) =
     (case raised of
        Some x \<Rightarrow> (pcs, raised, s)
      | None \<Rightarrow> finish_all e jobs rest (resume_task e jobs i (pcs, raised, s)))"

text \<open>
  The fan-out after the event loop has resumed tasks as a schedule says: \<open>gather\<close> starts
  every task, in the order of its arguments, and each task runs until it waits for the
  answer to its GET; then tasks are resumed as their answers, files and writes come.
\<close>

definition fan_out_after :: "env \<Rightarrow> job list \<Rightarrow> nat list \<Rightarrow> state \<Rightarrow> fan_out" where
  "fan_out_after e jobs sched s =
     fold (resume_task e jobs) sched (map (\<lambda>j. Fetching) jobs, None, fold (start_task e) jobs s)"

text \<open>
  \<open>await asyncio.gather(*tasks)\<close>: the caller goes on when a task has raised, with that
  exception and after the last resumption of the schedule (the tasks that have not ended
  stay where they are), or when all tasks have ended.
\<close>

definition gather :: "env \<Rightarrow> job list \<Rightarrow> nat list \<Rightarrow> state \<Rightarrow> pc list \<times> (exn + unit) \<times> state" where
  "gather e jobs sched s =
     (case finish_all e jobs (concat (map (replicate 4) [0..<length jobs]))
             (fan_out_after e jobs sched s) of
        (pcs, raised, s') \<Rightarrow>
          (pcs, (case raised of None \<Rightarrow> Inr () | Some x \<Rightarrow> Inl x), s'))"

text \<open>
  A task that runs with no other task in between: it starts and is resumed until it has
  ended, which takes four resumptions at most.
\<close>

definition alone :: "env \<Rightarrow> job \<Rightarrow> state \<Rightarrow> (exn + unit) \<times> state" where
  "alone e j s =
     (case resume e j Fetching (start_task e j s) of
        (pc1, s1) \<Rightarrow>
          (case resume e j pc1 s1 of
             (pc2, s2) \<Rightarrow>
               (case resume e j pc2 s2 of
                  (pc3, s3) \<Rightarrow>
                    (case resume e j pc3 s3 of
                       (pc4, s4) \<Rightarrow> (case pc4 of Failed x \<Rightarrow> Inl x | _ \<Rightarrow> Inr (), s4)))))"

text \<open>
  \<open>random.shuffle\<close>: for \<open>i\<close> from the last index down to 1, swap the element at \<open>i\<close>
  with the one at a random index \<open>j \<le> i\<close>.
\<close>

fun shuffle_from :: "(nat \<Rightarrow> nat) \<Rightarrow> nat \<Rightarrow> 'a list \<Rightarrow> 'a list" where
  "shuffle_from draw 0 xs = xs"
| "shuffle_from draw (Suc i) xs =
     (let j = draw (Suc i) mod (Suc i + 1)
      in shuffle_from draw i (xs[Suc i := xs ! j, j := xs ! Suc i]))"

definition shuffle :: "(nat \<Rightarrow> nat) \<Rightarrow> 'a list \<Rightarrow> 'a list" where
  "shuffle draw xs = shuffle_from draw (length xs - 1) xs"

definition munch_defendants :: "env \<Rightarrow> int list \<Rightarrow> state \<Rightarrow> (exn + unit) \<times> state" where
  "munch_defendants e defendants s =
     (let s1 = log e ''Munching started'' s
      in case gather e (map Defendant defendants) (defendant_schedule e) s1 of
           (pcs, Inl x, s2) \<Rightarrow> (Inl x, s2)
         | (pcs, Inr _, s2) \<Rightarrow>
             (case gather e (map Sheet (set_order e (links s2))) (sheet_schedule e) s2 of
                (pcs', Inl x, s3) \<Rightarrow> (Inl x, s3)
              | (pcs', Inr _, s3) \<Rightarrow>
                  (Inr (), log e ''Munching completed'' (s3\<lparr>links := {}\<rparr>))))"

definition munch_missing :: "env \<Rightarrow> int \<Rightarrow> int \<Rightarrow> state \<Rightarrow> (exn + unit) \<times> state" where
  "munch_missing e start stop s =
     (case check_missing_defendants start stop s of
        Inl x \<Rightarrow> (Inl x, s)
      | Inr defendants \<Rightarrow> munch_defendants e defendants s)"

text \<open>
  \<open>munch\<close>: the body of the \<open>try\<close>, the handler for any exception, and the final
  \<open>write_log\<close>.
\<close>

definition munch_body :: "env \<Rightarrow> int \<Rightarrow> int \<Rightarrow> state \<Rightarrow> (exn + unit) \<times> state" where
  "munch_body e start stop s =
     (case check_defendant_range_downloaded start stop s of
        Inl x \<Rightarrow> (Inl x, s)
      | Inr True \<Rightarrow> munch_missing e start stop s
      | Inr False \<Rightarrow> munch_defendants e (shuffle (rand_draw e) [start..stop - 1]) s)"

definition munch :: "env \<Rightarrow> int \<Rightarrow> int \<Rightarrow> bool \<Rightarrow> state \<Rightarrow> state" where
  "munch e start stop verbose' s =
     (let s0 = s\<lparr>verbose := verbose'\<rparr>
      in case munch_body e start stop s0 of
           (Inl x, s1) \<Rightarrow>
             write_log (write_log (log e (''Munching cancelled due to exception: ''
                                          @ exn_text x) s1))
         | (Inr _, s1) \<Rightarrow> write_log s1)"

text \<open>
  The work list of a run: the defendants that \<open>munch\<close> hands to \<open>munch_defendants\<close>, or
  the exception that keeps it from doing so.
\<close>

definition work_list :: "env \<Rightarrow> int \<Rightarrow> int \<Rightarrow> state \<Rightarrow> exn + int list" where
  "work_list e start stop s =
     (case check_defendant_range_downloaded start stop s of
        Inl x \<Rightarrow> Inl x
      | Inr True \<Rightarrow> check_missing_defendants start stop s
      | Inr False \<Rightarrow> Inr (shuffle (rand_draw e) [start..stop - 1]))"

text \<open>The name under which the page of a defendant is written.\<close>

definition defendant_file :: "int \<Rightarrow> string" where
  "defendant_file k = ''defendant'' @ str_int k @ ''.html''"

subsection \<open>The chunking utility\<close>

text \<open>
  \<open>chunk_string\<close> of \<open>chunk.py\<close>: the consecutive slices of \<open>chunk_size\<close> characters,
  the last one shorter if the length is no multiple. A chunk size of 0 is a
  \<open>ZeroDivisionError\<close>, here \<open>None\<close>; for a negative one the range is empty.
\<close>

definition chunk_string :: "string \<Rightarrow> int \<Rightarrow> string list option" where
  "chunk_string string chunk_size =
     (if chunk_size = 0 then None
      else let str_len = int (length string);
               n_chunks = (if str_len mod chunk_size = 0 then str_len div chunk_size
                           else str_len div chunk_size + 1)
           in Some (map (\<lambda>i. take (nat chunk_size) (drop (i * nat chunk_size) string))
                      [0..<nat n_chunks]))"

text \<open>A URL whose GET ends in a timeout or a client error.\<close>

definition fails_recoverably :: "env \<Rightarrow> string \<Rightarrow> bool" where
  "fails_recoverably e url =
     (case http_get e url of
        Body b \<Rightarrow> False
      | Raises x \<Rightarrow> exn_kind x = TimeoutKind \<or> exn_kind x = ClientKind)"

text \<open>
  A URL whose GET ends in another exception; and how the failed-URL list follows the
  requests from one state to a later one: the requests have only been added to, and if
  none of the added ones ended in another exception, the failed-URL list has grown by
  those that ended in a timeout or a client error, one entry each, in their order.
\<close>

definition fails_fatally :: "env \<Rightarrow> string \<Rightarrow> bool" where
  "fails_fatally e url =
     (case http_get e url of
        Body b \<Rightarrow> False
      | Raises x \<Rightarrow> \<not> (exn_kind x = TimeoutKind \<or> exn_kind x = ClientKind))"

definition history :: "env \<Rightarrow> state \<Rightarrow> state \<Rightarrow> bool" where
  "history e s s' =
     (prefix (requests s) (requests s') \<and>
      (let new = drop (length (requests s)) (requests s')
       in list_all (\<lambda>u. \<not> fails_fatally e u) new \<longrightarrow>
          failed_urls s' = failed_urls s @ filter (fails_recoverably e) new))"

section \<open>Inputs for the examples\<close>

definition other_error :: exn where
  "other_error = Exn OtherKind (class_repr ''RuntimeError'') ''boom''"

definition timeout_error :: exn where
  "timeout_error = Exn TimeoutKind (class_repr ''TimeoutError'') []"

definition page :: soup where
  "page = \<lparr>soup_text = map of_char ''<a href=x>'',
            soup_anchors = [Some ''666666.php?&docase=111111'']\<rparr>"

text \<open>
  A server that answers every URL with the same page, except for defendant 100002
  (an unexpected error) and defendant 100003 (a timeout); no disk fault.
\<close>

definition env_ex :: env where
  "env_ex =
     \<lparr>http_get = (\<lambda>url. if url = def_url @ ''100002'' then Raises other_error
                        else if url = def_url @ ''100003'' then Raises timeout_error
                        else Body (map of_char ''<a href=x>'')),
      html_parser = (\<lambda>b. page),
      clock = (\<lambda>n. ''t''),
      io_fault = (\<lambda>p. NoFault),
      rand_draw = (\<lambda>i. 0),
      set_order = sorted_list_of_set,
      defendant_schedule = [0, 0, 0, 0, 1],
      sheet_schedule = []\<rparr>"

text \<open>
  The page of the example: anchors to two docket sheets and to another page; and a page
  with an anchor that has no \<open>href\<close>.
\<close>

definition page_abc :: soup where
  "page_abc =
     \<lparr>soup_text = map of_char ''<a href=a></a><a href=b></a><a href=c></a>'',
      soup_anchors = [Some ''http://www.opcso.org/dcktmstr/666666.php?&docase=111111'',
                      Some ''other.php'',
                      Some ''http://www.opcso.org/dcktmstr/666666.php?&docase=222222'']\<rparr>"

definition page_named_anchor :: soup where
  "page_named_anchor =
     \<lparr>soup_text = map of_char ''<a name=top></a>'', soup_anchors = [None]\<rparr>"

text \<open>
  Directories for the examples: one with the pages of 100001 and 100003 and a file of
  another kind; one with a page whose number has seven digits; one with a page whose
  number has three digits.
\<close>

definition disk_two_pages :: "(string \<times> string) list" where
  "disk_two_pages =
     [(''defendants/defendant100001.html'', ''x''),
      (''defendants/defendant100003.html'', ''y''),
      (''defendants/notes.txt'', ''z'')]"

definition disk_seven_digits :: "(string \<times> string) list" where
  "disk_seven_digits = [(''defendants/defendant1234567.html'', ''x'')]"

definition disk_three_digits :: "(string \<times> string) list" where
  "disk_three_digits = [(''defendants/defendant123.html'', ''x'')]"




definition disk_one :: "(string \<times> string) list" where
  "disk_one = [(''defendants/defendant100000.html'', ''x'')]"

text \<open>A server that answers every URL with a page, except for a timeout for 100003.\<close>

definition env_timeout :: env where
  "env_timeout =
     env_ex\<lparr>http_get := (\<lambda>url. if url = def_url @ ''100003'' then Raises timeout_error
                                else Body (map of_char ''<a href=x>''))\<rparr>"




section \<open>Logging: what \<open>log\<close> changes\<close>

lemma log_len_log: "log_len (log e m s) = (if log_len s > 100000 then 0 else log_len s)"
  by (simp add: log_def strftime_def write_log_def append_file_def put_file_def Let_def
      split: prod.splits)

lemma log_no_flush:
  "log_len s \<le> 100000 \<Longrightarrow> files (log e m s) = files s"
  "log_len s \<le> 100000 \<Longrightarrow> log_buffer (log e m s) =
     log_buffer s @ clock e (ticks s + (if verbose s then 1 else 0))
       @ [CHR 0x0A] @ m @ [CHR 0x0A]"
  by (simp_all add: log_def strftime_def Let_def split: prod.splits)

text \<open>
  C6 (the threshold flush). \<open>log\<close> compares \<open>log_len\<close> with 100000, but nothing ever adds
  to \<open>log_len\<close>: it is 0 from \<open>__init__\<close> on. So \<open>log\<close> appends to the buffer and leaves
  the log file alone, however long the buffer is.
\<close>

lemma log_never_flushes:
  "files (log e m (s\<lparr>log_len := 0\<rparr>)) = files s
   \<and> log_buffer (log e m (s\<lparr>log_len := 0\<rparr>))
       = log_buffer s @ clock e (ticks s + (if verbose s then 1 else 0))
           @ [CHR 0x0A] @ m @ [CHR 0x0A]
   \<and> log_len (log e m (s\<lparr>log_len := 0\<rparr>)) = 0"
  by (simp add: log_no_flush log_len_log)

text \<open>
  C6, at a buffer of 100001 characters: after the next call of \<open>log\<close> there is still no
  log file, and the buffer has grown to 100012 characters.
\<close>

theorem log_full_buffer_not_flushed:
  "read_file ''log.txt''
     (log env_ex ''one more''
        ((init_default [])\<lparr>log_buffer := replicate 100001 CHR ''x''\<rparr>)) = None
   \<and> length (log_buffer
        (log env_ex ''one more''
           ((init_default [])\<lparr>log_buffer := replicate 100001 CHR ''x''\<rparr>))) = 100012"
  by (simp add: log_no_flush read_file_def init_default_def init_def env_ex_def)

section \<open>Fetching one item\<close>

lemma log_frame:
  "failed_urls (log e m s) = failed_urls s"
  "links (log e m s) = links s"
  "open_files (log e m s) = open_files s"
  "defendant_path (log e m s) = defendant_path s"
  "docket_path (log e m s) = docket_path s"
  "log_file (log e m s) = log_file s"
  "verbose (log e m s) = verbose s"
  "requests (log e m s) = requests s"
  by (simp_all add: log_def strftime_def write_log_def append_file_def put_file_def Let_def
      split: prod.splits)




lemma download_item_fatal:
  "http_get e (url_root @ py_str item) = Raises x \<Longrightarrow>
   \<not> (exn_kind x = TimeoutKind \<or> exn_kind x = ClientKind) \<Longrightarrow>
   download_item e url_root item s =
     (Inl x,
      log e (''Exception downloading item '' @ (url_root @ py_str item) @ '': '' @ exn_type x)
        ((log e (''downloading '' @ py_str item) s)
         \<lparr>requests := requests s @ [url_root @ py_str item],
          failed_urls := failed_urls s @ map (\<lambda>c. [c]) (url_root @ py_str item)\<rparr>))"
  by (simp add: download_item_def Let_def log_frame)



section \<open>Extracting the docket sheet links\<close>

lemma contains_sublist: "contains sub s = sublist sub s"
  by (induction s) (simp_all add: sublist_Cons_right)

lemma contains_iff: "contains sub s \<longleftrightarrow> (\<exists>p q. s = p @ sub @ q)"
  by (simp add: contains_sublist sublist_def)

lemma hrefs_all: "None \<notin> set as \<Longrightarrow> hrefs as = Inr (map the as)"
  by (induction as rule: hrefs.induct) auto

lemma hrefs_missing: "None \<in> set as \<Longrightarrow> hrefs as = Inl (key_error ''href'')"
  by (induction as rule: hrefs.induct) auto

lemma set_map_the: "None \<notin> set as \<Longrightarrow> set (map the as) = {h. Some h \<in> set as}"
proof (induction as)
  case Nil
  then show ?case by simp
next
  case (Cons a as)
  then obtain h where a: "a = Some h" by (cases a) auto
  from Cons have "set (map the as) = {h. Some h \<in> set as}" by simp
  then show ?case by (auto simp add: a)
qed

text \<open>
  C7, as amended. For a page in which every anchor has an \<open>href\<close>,
  \<open>get_defendant_case_links\<close> returns the set of the \<open>href\<close> values that contain
  \<open>666666.php\<close>, and no other; for the page of the example these are the two docket
  sheet links.
\<close>

theorem get_defendant_case_links_set:
  assumes "None \<notin> set (soup_anchors d)"
  shows "get_defendant_case_links d =
     Inr {h. Some h \<in> set (soup_anchors d) \<and> (\<exists>p q. h = p @ ''666666.php'' @ q)}"
proof -
  have "set (filter (contains ''666666.php'') (map the (soup_anchors d)))
      = {h. Some h \<in> set (soup_anchors d) \<and> contains ''666666.php'' h}"
    unfolding set_filter set_map_the[OF assms] by simp
  then show ?thesis
    using assms by (simp add: get_defendant_case_links_def hrefs_all contains_iff)
qed

text \<open>
  C7, as stated, fails: on a page with an anchor that has no \<open>href\<close> the function
  raises \<open>KeyError\<close> and returns no set.
\<close>

theorem anchor_without_href_raises:
  "get_defendant_case_links page_named_anchor = Inl (key_error ''href'')"
  by (simp add: get_defendant_case_links_def page_named_anchor_def)

theorem get_defendant_case_links_set_witness:
  "None \<notin> set (soup_anchors page_abc)
   \<and> get_defendant_case_links page_abc =
       Inr {''http://www.opcso.org/dcktmstr/666666.php?&docase=111111'',
            ''http://www.opcso.org/dcktmstr/666666.php?&docase=222222''}"
proof -
  have h: "None \<notin> set (soup_anchors page_abc)" by (simp add: page_abc_def)
  have e: "get_defendant_case_links page_abc =
       Inr {''http://www.opcso.org/dcktmstr/666666.php?&docase=111111'',
            ''http://www.opcso.org/dcktmstr/666666.php?&docase=222222''}"
    by (simp add: get_defendant_case_links_def page_abc_def)
  show ?thesis using h e get_defendant_case_links_set[OF h] by (simp only: simp_thms)
qed

section \<open>Writing a file\<close>



lemma put_file_frame:
  "failed_urls (put_file p b s) = failed_urls s"
  "links (put_file p b s) = links s"
  "log_len (put_file p b s) = log_len s"
  "log_buffer (put_file p b s) = log_buffer s"
  "open_files (put_file p b s) = open_files s"
  "defendant_path (put_file p b s) = defendant_path s"
  "docket_path (put_file p b s) = docket_path s"
  "log_file (put_file p b s) = log_file s"
  "verbose (put_file p b s) = verbose s"
  "requests (put_file p b s) = requests s"
  by (simp_all add: put_file_def)

text \<open>
  The encoding: ASCII text is written as it is, other code points take two to four
  bytes, and a text with a surrogate has no encoding.
\<close>

lemma utf8_ascii: "\<forall>c\<in>set s. c < 128 \<Longrightarrow> utf8 s = Inr (map char_of s)"
  by (induction s) (auto simp add: utf8_def utf8_char_def surrogate_def list_ex_iff split: if_splits)

lemma utf8_surrogate: "utf8 s = Inl x \<longleftrightarrow> list_ex surrogate s \<and> x = unicode_encode_error s"
  by (auto simp add: utf8_def)

lemma length_utf8_char:
  "length (utf8_char c) = (if c < 0x80 then 1 else if c < 0x800 then 2 else if c < 0x10000 then 3 else 4)"
  by (simp add: utf8_char_def)









section \<open>Printing and reading integers\<close>

lemma below_ten: "(k::nat) < 10 \<Longrightarrow> k \<in> {0,1,2,3,4,5,6,7,8,9}"
  by (simp add: numeral_eq_Suc less_Suc_eq)

lemma is_digit_digit_char: "is_digit (digit_char d)"
proof -
  have "d mod 10 \<in> {0,1,2,3,4,5,6,7,8,9}" by (rule below_ten) simp
  then show ?thesis
    by (auto simp add: digit_char_def is_digit_def)
qed

lemma digit_val_digit_char: "digit_val (digit_char d) = d mod 10"
proof -
  have "d mod 10 \<in> {0,1,2,3,4,5,6,7,8,9}" by (rule below_ten) simp
  then show ?thesis
    by (auto simp add: digit_char_def digit_val_def)
qed

lemma str_nat_small: "n < 10 \<Longrightarrow> str_nat n = [digit_char n]"
  by (subst str_nat.simps) simp

lemma str_nat_big: "10 \<le> n \<Longrightarrow> str_nat n = str_nat (n div 10) @ [digit_char n]"
  by (subst str_nat.simps) simp

lemma str_nat_digits: "c \<in> set (str_nat n) \<Longrightarrow> is_digit c"
proof (induction n arbitrary: c rule: str_nat.induct)
  case (1 n)
  show ?case
  proof (cases "n < 10")
    case True
    with "1.prems" show ?thesis by (simp add: str_nat_small is_digit_digit_char)
  next
    case False
    with "1.prems" "1.IH" show ?thesis
      by (auto simp add: str_nat_big is_digit_digit_char)
  qed
qed

lemma str_nat_nonempty: "str_nat n \<noteq> []"
  by (cases "n < 10") (simp_all add: str_nat_small str_nat_big)

lemma digits_val_snoc: "digits_val (ds @ [c]) = 10 * digits_val ds + digit_val c"
  by (simp add: digits_val_def)

lemma digits_val_str_nat: "digits_val (str_nat n) = n"
proof (induction n rule: str_nat.induct)
  case (1 n)
  show ?case
  proof (cases "n < 10")
    case True
    then show ?thesis
      by (simp add: str_nat_small digits_val_def digit_val_digit_char)
  next
    case False
    with "1.IH" have "digits_val (str_nat (n div 10)) = n div 10" by simp
    with False show ?thesis
      by (simp add: str_nat_big digits_val_snoc digit_val_digit_char)
  qed
qed

lemma length_str_nat_6: "100000 \<le> n \<Longrightarrow> n \<le> 999999 \<Longrightarrow> length (str_nat n) = 6"
proof -
  assume a: "100000 \<le> n" "n \<le> 999999"
  have s: "\<And>m. m < 10 \<Longrightarrow> length (str_nat m) = 1" by (simp add: str_nat_small)
  have t: "\<And>m. 10 \<le> m \<Longrightarrow> length (str_nat m) = Suc (length (str_nat (m div 10)))"
    by (simp add: str_nat_big)
  from a have "length (str_nat n) = Suc (length (str_nat (n div 10)))" by (intro t) simp
  also from a have "length (str_nat (n div 10)) = Suc (length (str_nat (n div 10 div 10)))"
    by (intro t) simp
  also from a have "length (str_nat (n div 10 div 10)) = Suc (length (str_nat (n div 10 div 10 div 10)))"
    by (intro t) simp
  also from a have "length (str_nat (n div 10 div 10 div 10))
      = Suc (length (str_nat (n div 10 div 10 div 10 div 10)))"
    by (intro t) simp
  also from a have "length (str_nat (n div 10 div 10 div 10 div 10))
      = Suc (length (str_nat (n div 10 div 10 div 10 div 10 div 10)))"
    by (intro t) simp
  also from a have "length (str_nat (n div 10 div 10 div 10 div 10 div 10)) = 1"
    by (intro s) simp
  finally show ?thesis by simp
qed

lemma digit_not_special:
  assumes "is_digit c"
  shows "\<not> is_space c" "c \<noteq> CHR ''+''" "c \<noteq> CHR ''-''" "c \<noteq> CHR ''_''" "c \<noteq> CHR ''.''"
  using assms by (auto simp add: is_digit_def is_space_def)

lemma no_double_underscore_digits:
  "\<forall>c\<in>set ds. is_digit c \<Longrightarrow> no_double_underscore ds"
  by (induction ds rule: no_double_underscore.induct) (auto dest: digit_not_special(4))

lemma py_int_digits:
  assumes ne: "ds \<noteq> []" and dg: "\<forall>c\<in>set ds. is_digit c"
  shows "py_int ds = Some (int (digits_val ds))"
proof -
  from ne obtain c cs where ds: "ds = c # cs" by (cases ds) auto
  with dg have c: "is_digit c" by simp
  have l: "is_digit (last ds)" using ne dg by simp
  have s1: "dropWhile is_space ds = ds"
    using c by (simp add: ds digit_not_special)
  have tw: "takeWhile (\<lambda>c. is_digit c \<or> c = CHR ''_'') ds = ds"
    using dg by (simp add: takeWhile_eq_all_conv)
  have dw: "dropWhile (\<lambda>c. is_digit c \<or> c = CHR ''_'') ds = []"
    using dg by simp
  have fl: "filter is_digit ds = ds" using dg by simp
  have hd: "hd ds \<noteq> CHR ''+''" "hd ds \<noteq> CHR ''-''" "hd ds \<noteq> CHR ''_''"
    using c by (simp_all add: ds digit_not_special)
  have la: "last ds \<noteq> CHR ''_''" using l by (auto dest: digit_not_special(4))
  show ?thesis
    unfolding py_int_def Let_def s1
    using ne hd la no_double_underscore_digits[OF dg]
    by (simp add: tw dw fl)
qed

lemma py_int_str_nat: "py_int (str_nat n) = Some (int n)"
proof -
  have "\<forall>c\<in>set (str_nat n). is_digit c" by (simp add: str_nat_digits)
  from py_int_digits[OF str_nat_nonempty this] show ?thesis
    by (simp add: digits_val_str_nat)
qed

lemma py_int_str_int: "0 \<le> k \<Longrightarrow> py_int (str_int k) = Some k"
  by (simp add: str_int_def py_int_str_nat)

lemma str_int_inj:
  assumes "0 \<le> j" and "0 \<le> k" and "str_int j = str_int k"
  shows "j = k"
proof -
  have "Some j = py_int (str_int j)" using assms(1) by (simp add: py_int_str_int)
  also have "\<dots> = py_int (str_int k)" by (simp only: assms(3))
  also have "\<dots> = Some k" using assms(2) by (simp add: py_int_str_int)
  finally show ?thesis by simp
qed

lemma length_str_int_6: "100000 \<le> k \<Longrightarrow> k \<le> 999999 \<Longrightarrow> length (str_int k) = 6"
  by (simp add: str_int_def length_str_nat_6)

lemma id_window_file:
  assumes "length d = 6"
  shows "id_window (pre @ d @ ''.html'') = d"
proof -
  have l: "length (pre @ d @ ''.html'') - 5 = length (pre @ d)" by simp
  have t: "take (length (pre @ d)) (pre @ d @ ''.html'') = pre @ d"
    using append_eq_conv_conj[of "pre @ d" "''.html''" "(pre @ d) @ ''.html''"] by simp
  have d: "drop (length (pre @ d) - 6) (pre @ d) = d" using assms by simp
  show ?thesis unfolding id_window_def Let_def l t d ..
qed

lemma re_search_here: "match_here pre s \<Longrightarrow> re_search pre s"
  by (cases s) simp_all

lemma re_search_file:
  assumes "ds \<noteq> []" and "\<forall>c\<in>set ds. is_digit c"
  shows "re_search pre (pre @ ds @ ''.html'')"
proof -
  have nd: "\<not> is_digit CHR ''.''" by (simp add: is_digit_def)
  have "takeWhile is_digit (ds @ ''.html'') = ds"
    using assms(2) nd by (simp add: takeWhile_append2)
  moreover have "dropWhile is_digit (ds @ ''.html'') = ''.html''"
    using assms(2) nd by (simp add: dropWhile_append2)
  ultimately have "match_here pre (pre @ ds @ ''.html'')"
    using assms(1) by (simp add: match_here_def Let_def)
  then show ?thesis by (rule re_search_here)
qed

lemma re_search_id_file: "0 \<le> k \<Longrightarrow> re_search pre (pre @ str_int k @ ''.html'')"
  using re_search_file[of "str_nat (nat k)" pre] str_nat_nonempty str_nat_digits
  by (simp add: str_int_def)

section \<open>What is already on disk\<close>

lemma downloaded_filter: "downloaded fp (filter fp names) = downloaded fp names"
  by (induction names) (auto split: option.splits sum.splits)

lemma downloaded_raises:
  "n \<in> set names \<Longrightarrow> fp n \<Longrightarrow> py_int (id_window n) = None \<Longrightarrow>
   \<exists>lit. downloaded fp names = Inl (value_error lit)"
proof (induction names)
  case Nil
  then show ?case by simp
next
  case (Cons a names)
  show ?case
  proof (cases "fp a \<and> py_int (id_window a) = None")
    case True
    then show ?thesis by auto
  next
    case False
    with Cons.prems have "n \<in> set names" by auto
    from Cons.IH[OF this Cons.prems(2,3)] obtain lit where
      "downloaded fp names = Inl (value_error lit)" by blast
    then show ?thesis by (auto split: option.splits)
  qed
qed

lemma downloaded_ok:
  "\<forall>n\<in>set names. fp n \<longrightarrow> py_int (id_window n) \<noteq> None \<Longrightarrow>
   downloaded fp names = Inr (map (\<lambda>n. the (py_int (id_window n))) (filter fp names))"
  by (induction names) (auto split: option.splits)

lemma parse_six_digit_file:
  "100000 \<le> k \<Longrightarrow> k \<le> 999999 \<Longrightarrow> py_int (id_window (pre @ str_int k @ ''.html'')) = Some k"
  by (simp add: id_window_file length_str_int_6 py_int_str_int)

lemma downloaded_six_digit:
  assumes H: "\<forall>n\<in>set names. re_search pre n \<longrightarrow>
                (\<exists>k. 100000 \<le> k \<and> k \<le> 999999 \<and> n = pre @ str_int k @ ''.html'')"
  shows "\<exists>ks. downloaded (re_search pre) names = Inr ks
           \<and> (\<forall>j\<ge>0. j \<in> set ks \<longleftrightarrow> pre @ str_int j @ ''.html'' \<in> set names)"
proof -
  let ?ks = "map (\<lambda>n. the (py_int (id_window n))) (filter (re_search pre) names)"
  have ok: "\<forall>n\<in>set names. re_search pre n \<longrightarrow> py_int (id_window n) \<noteq> None"
    using H parse_six_digit_file by fastforce
  have d: "downloaded (re_search pre) names = Inr ?ks" by (rule downloaded_ok[OF ok])
  have "j \<in> set ?ks \<longleftrightarrow> pre @ str_int j @ ''.html'' \<in> set names" if j: "0 \<le> j" for j
  proof
    assume "j \<in> set ?ks"
    then obtain n where n: "n \<in> set names" "re_search pre n" "the (py_int (id_window n)) = j"
      by auto
    with H obtain k where k: "100000 \<le> k" "k \<le> 999999" "n = pre @ str_int k @ ''.html''"
      by blast
    with n(3) have "j = k" by (simp add: parse_six_digit_file)
    with n(1) k(3) show "pre @ str_int j @ ''.html'' \<in> set names" by simp
  next
    assume m: "pre @ str_int j @ ''.html'' \<in> set names"
    have r: "re_search pre (pre @ str_int j @ ''.html'')" by (rule re_search_id_file[OF j])
    with H m obtain k where k: "100000 \<le> k" "k \<le> 999999"
        "pre @ str_int j @ ''.html'' = pre @ str_int k @ ''.html''"
      by blast
    then have "str_int j = str_int k" by simp
    with j k have "j = k" by (intro str_int_inj) auto
    then have "the (py_int (id_window (pre @ str_int j @ ''.html''))) = j"
      using k by (simp add: parse_six_digit_file)
    with m r show "j \<in> set ?ks" by force
  qed
  with d show ?thesis by blast
qed

text \<open>
  C3, as amended. Let every name in the directory that matches the pattern be the file
  name of an ID of six digits (the prefix, the ID from 100000 to 999999, \<open>.html\<close>),
  and let \<open>start\<close> be at least 0. Then \<open>check_missing\<close> returns the IDs of
  \<open>[start, stop)\<close> whose file is not in the directory, in ascending order, each once:
  every absent ID is in the list and no ID whose file exists is.
\<close>

theorem check_missing_exact:
  assumes H: "\<forall>n\<in>set (listdir path s). re_search pre n \<longrightarrow>
                (\<exists>k. 100000 \<le> k \<and> k \<le> 999999 \<and> n = pre @ str_int k @ ''.html'')"
    and st: "0 \<le> start"
  shows "\<exists>ms. check_missing start stop path (re_search pre) s = Inr ms
     \<and> ms = filter (\<lambda>j. pre @ str_int j @ ''.html'' \<notin> set (listdir path s)) [start..stop - 1]
     \<and> sorted ms \<and> distinct ms
     \<and> set ms = {j. start \<le> j \<and> j < stop \<and> pre @ str_int j @ ''.html'' \<notin> set (listdir path s)}"
proof -
  from downloaded_six_digit[OF H] obtain ks where
    d: "downloaded (re_search pre) (listdir path s) = Inr ks"
    and ks: "\<forall>j\<ge>0. j \<in> set ks \<longleftrightarrow> pre @ str_int j @ ''.html'' \<in> set (listdir path s)"
    by blast
  let ?ms = "filter (\<lambda>j. pre @ str_int j @ ''.html'' \<notin> set (listdir path s)) [start..stop - 1]"
  have "filter (\<lambda>j. j \<notin> set ks) [start..stop - 1] = ?ms"
    using ks st by (intro filter_cong) auto
  then have c: "check_missing start stop path (re_search pre) s = Inr ?ms"
    by (simp add: check_missing_def d)
  have "sorted ?ms" using sorted_filter[of "\<lambda>x. x" "[start..stop - 1]"] by simp
  moreover have "distinct ?ms" by simp
  moreover have "set ?ms = {j. start \<le> j \<and> j < stop
      \<and> pre @ str_int j @ ''.html'' \<notin> set (listdir path s)}"
    by auto
  ultimately show ?thesis using c by blast
qed

lemma listdir_two_pages:
  "listdir ''defendants/'' (init_default disk_two_pages)
     = [''defendant100001.html'', ''defendant100003.html'', ''notes.txt'']"
  by (simp add: listdir_def init_default_def init_def disk_two_pages_def)

lemma str_int_examples:
  "str_int 100000 = ''100000''" "str_int 100001 = ''100001''" "str_int 100002 = ''100002''"
  "str_int 100003 = ''100003''" "str_int 100004 = ''100004''"
  by (simp_all add: str_int_def str_nat.simps digit_char_def)

theorem check_missing_exact_witness:
  "check_missing 100000 100005 ''defendants/'' (re_search ''defendant'')
     (init_default disk_two_pages) = Inr [100000, 100002, 100004]"
proof -
  have H: "\<forall>n\<in>set (listdir ''defendants/'' (init_default disk_two_pages)).
      re_search ''defendant'' n \<longrightarrow>
        (\<exists>k. 100000 \<le> k \<and> k \<le> 999999 \<and> n = ''defendant'' @ str_int k @ ''.html'')"
  proof -
    have a: "\<exists>k. 100000 \<le> k \<and> k \<le> 999999
        \<and> ''defendant100001.html'' = ''defendant'' @ str_int k @ ''.html''"
      by (rule exI[of _ 100001]) (simp add: str_int_examples)
    have b: "\<exists>k. 100000 \<le> k \<and> k \<le> 999999
        \<and> ''defendant100003.html'' = ''defendant'' @ str_int k @ ''.html''"
      by (rule exI[of _ 100003]) (simp add: str_int_examples)
    have c: "\<not> re_search ''defendant'' ''notes.txt''"
      by (simp add: match_here_def)
    show ?thesis unfolding listdir_two_pages using a b c by simp
  qed
  have st: "(0::int) \<le> 100000" by simp
  from check_missing_exact[OF H st, of 100005]
  have "check_missing 100000 100005 ''defendants/'' (re_search ''defendant'')
      (init_default disk_two_pages)
    = Inr (filter (\<lambda>j. ''defendant'' @ str_int j @ ''.html''
             \<notin> set (listdir ''defendants/'' (init_default disk_two_pages)))
          [100000..100005 - 1])"
    by blast
  also have "[100000..100005 - 1] = [100000, 100001, 100002, 100003, 100004::int]"
    by (simp add: upto_rec1)
  finally show ?thesis
    by (simp add: listdir_two_pages str_int_examples)
qed

lemma downloaded_single_ok:
  "fp i \<Longrightarrow> py_int (id_window i) = Some k \<Longrightarrow> downloaded fp [i] = Inr [k]"
  by simp

lemma downloaded_single_bad:
  "fp i \<Longrightarrow> py_int (id_window i) = None \<Longrightarrow>
   downloaded fp [i] = Inl (value_error (id_window i))"
  by simp

text \<open>
  C3, as stated, fails for some directories: with only \<open>defendant1234567.html\<close> in the
  directory, ID 234567 is not reported missing although its file is absent; with
  \<open>defendant123.html\<close> in the directory the function raises \<open>ValueError\<close>.
\<close>

theorem check_missing_misreads_names:
  "check_missing 234567 234568 ''defendants/'' (re_search ''defendant'')
     (init_default disk_seven_digits) = Inr []
   \<and> ''defendant'' @ str_int 234567 @ ''.html''
       \<notin> set (listdir ''defendants/'' (init_default disk_seven_digits))
   \<and> check_missing 123 124 ''defendants/'' (re_search ''defendant'')
       (init_default disk_three_digits) = Inl (value_error ''ant123'')"
proof -
  have l7: "listdir ''defendants/'' (init_default disk_seven_digits) = [''defendant1234567.html'']"
    by (simp add: listdir_def init_default_def init_def disk_seven_digits_def)
  have l3: "listdir ''defendants/'' (init_default disk_three_digits) = [''defendant123.html'']"
    by (simp add: listdir_def init_default_def init_def disk_three_digits_def)
  have m7: "re_search ''defendant'' ''defendant1234567.html''"
    by (simp add: match_here_def is_digit_def)
  have m3: "re_search ''defendant'' ''defendant123.html''"
    by (simp add: match_here_def is_digit_def)
  have w7: "py_int (id_window ''defendant1234567.html'') = Some 234567"
    by (simp add: id_window_def py_int_def is_space_def is_digit_def digits_val_def digit_val_def)
  have w3: "id_window ''defendant123.html'' = ''ant123''"
    by (simp add: id_window_def)
  have p3: "py_int ''ant123'' = None"
    by (simp add: py_int_def is_space_def is_digit_def)
  have s: "str_int 234567 = ''234567''"
    by (simp add: str_int_def str_nat.simps digit_char_def)
  have d7: "downloaded (re_search ''defendant'') [''defendant1234567.html''] = Inr [234567]"
    by (rule downloaded_single_ok[where fp = "re_search ''defendant''", OF m7 w7])
  have p3': "py_int (id_window ''defendant123.html'') = None" by (simp only: w3 p3)
  have d3: "downloaded (re_search ''defendant'') [''defendant123.html'']
      = Inl (value_error ''ant123'')"
    using downloaded_single_bad[where fp = "re_search ''defendant''", OF m3 p3']
    by (simp only: w3)
  have "check_missing 234567 234568 ''defendants/'' (re_search ''defendant'')
     (init_default disk_seven_digits) = Inr []"
    unfolding check_missing_def l7 d7 by simp
  moreover have "''defendant'' @ str_int 234567 @ ''.html''
       \<notin> set (listdir ''defendants/'' (init_default disk_seven_digits))"
    by (simp add: l7 s)
  moreover have "check_missing 123 124 ''defendants/'' (re_search ''defendant'')
       (init_default disk_three_digits) = Inl (value_error ''ant123'')"
    unfolding check_missing_def l3 d3 by simp
  ultimately show ?thesis by (simp only: simp_thms)
qed

lemma short_window_not_int:
  assumes ne: "ds \<noteq> []" and len: "length ds < 6"
  shows "py_int (id_window (''defendant'' @ ds @ ''.html'')) = None"
proof -
  from ne have "0 < length ds" by simp
  with len have "length ds = 1 \<or> length ds = 2 \<or> length ds = 3 \<or> length ds = 4
      \<or> length ds = 5"
    by arith
  then consider a where "ds = [a]" | a b where "ds = [a, b]" | a b c where "ds = [a, b, c]"
    | a b c d where "ds = [a, b, c, d]" | a b c d e where "ds = [a, b, c, d, e]"
    by (auto simp add: length_Suc_conv eval_nat_numeral)
  then show ?thesis
    by cases (simp_all add: id_window_def py_int_def is_space_def is_digit_def)
qed

text \<open>
  C10. If the directory holds a defendant file whose number has fewer than six digits
  (as \<open>defendant123.html\<close>), \<open>check_missing\<close> and \<open>check_range_downloaded\<close> raise
  \<open>ValueError\<close>: the six characters before \<open>.html\<close> then begin with a letter of the
  prefix. Names that do not match the pattern have no effect on the result.
\<close>

theorem short_id_raises:
  assumes "ds \<noteq> []" and "\<forall>c\<in>set ds. is_digit c" and "length ds < 6"
    and "''defendant'' @ ds @ ''.html'' \<in> set (listdir path s)"
  shows "(\<exists>lit. check_missing start stop path (re_search ''defendant'') s
                  = Inl (value_error lit))
     \<and> (\<exists>lit. check_range_downloaded start stop path (re_search ''defendant'') s
                  = Inl (value_error lit))
     \<and> downloaded (re_search ''defendant'')
          (filter (re_search ''defendant'') (listdir path s))
        = downloaded (re_search ''defendant'') (listdir path s)"
proof -
  have m: "re_search ''defendant'' (''defendant'' @ ds @ ''.html'')"
    by (rule re_search_file[OF assms(1,2)])
  have p: "py_int (id_window (''defendant'' @ ds @ ''.html'')) = None"
    by (rule short_window_not_int[OF assms(1,3)])
  from downloaded_raises[OF assms(4), of "re_search ''defendant''", OF m p]
  obtain lit where "downloaded (re_search ''defendant'') (listdir path s)
      = Inl (value_error lit)"
    by blast
  then show ?thesis
    by (auto simp add: check_missing_def check_range_downloaded_def downloaded_filter)
qed

theorem short_id_raises_witness:
  "check_missing 123 124 ''defendants/'' (re_search ''defendant'')
     (init_default disk_three_digits) = Inl (value_error ''ant123'')
   \<and> check_range_downloaded 123 124 ''defendants/'' (re_search ''defendant'')
       (init_default disk_three_digits) = Inl (value_error ''ant123'')"
proof -
  have l3: "listdir ''defendants/'' (init_default disk_three_digits) = [''defendant123.html'']"
    by (simp add: listdir_def init_default_def init_def disk_three_digits_def)
  have a1: "''123'' \<noteq> []" by simp
  have a2: "\<forall>c\<in>set ''123''. is_digit c" by (simp add: is_digit_def)
  have a3: "length ''123'' < 6" by simp
  have a4: "''defendant'' @ ''123'' @ ''.html''
      \<in> set (listdir ''defendants/'' (init_default disk_three_digits))"
    by (simp add: l3)
  have m3: "re_search ''defendant'' ''defendant123.html''"
    by (simp add: match_here_def is_digit_def)
  have w3: "id_window ''defendant123.html'' = ''ant123''"
    by (simp add: id_window_def)
  have p3: "py_int (id_window ''defendant123.html'') = None"
    by (simp add: w3 py_int_def is_space_def is_digit_def)
  have d3: "downloaded (re_search ''defendant'') [''defendant123.html'']
      = Inl (value_error ''ant123'')"
    using downloaded_single_bad[where fp = "re_search ''defendant''", OF m3 p3]
    by (simp only: w3)
  have c1: "check_missing 123 124 ''defendants/'' (re_search ''defendant'')
     (init_default disk_three_digits) = Inl (value_error ''ant123'')"
    unfolding check_missing_def l3 d3 by simp
  have c2: "check_range_downloaded 123 124 ''defendants/'' (re_search ''defendant'')
       (init_default disk_three_digits) = Inl (value_error ''ant123'')"
    unfolding check_range_downloaded_def l3 d3 by simp
  show ?thesis
    using short_id_raises[OF a1 a2 a3 a4, of 123 124] c1 c2 by (simp only: simp_thms)
qed

section \<open>The work list of a run\<close>

lemma munch_body_work_list:
  "munch_body e start stop s =
     (case work_list e start stop s of
        Inl x \<Rightarrow> (Inl x, s)
      | Inr ds \<Rightarrow> munch_defendants e ds s)"
  by (simp add: munch_body_def work_list_def munch_missing_def
      split: sum.splits bool.splits)



lemma mset_shuffle_from: "i < length xs \<Longrightarrow> mset (shuffle_from draw i xs) = mset xs"
proof (induction draw i xs rule: shuffle_from.induct)
  case (1 draw xs)
  then show ?case by simp
next
  case (2 draw i xs)
  let ?j = "draw (Suc i) mod (Suc i + 1)"
  have j: "?j < length xs" using "2.prems" by (simp add: less_Suc_eq_le mod_le_divisor less_le_trans[OF mod_less_divisor])
  have "mset (xs[Suc i := xs ! ?j, ?j := xs ! Suc i]) = mset xs"
    using mset_swap[OF j "2.prems"] by simp
  with "2.IH"[of ?j] "2.prems" show ?case by (simp add: Let_def)
qed

lemma mset_shuffle: "mset (shuffle draw xs) = mset xs"
  by (cases xs) (simp_all add: shuffle_def mset_shuffle_from)












section \<open>The tasks of a fan-out\<close>

text \<open>What a resumption leaves unchanged.\<close>

lemma raises_frame:
  "failed_urls (snd (raises e j x s)) = failed_urls s"
  "requests (snd (raises e j x s)) = requests s"
  "defendant_path (snd (raises e j x s)) = defendant_path s"
  "docket_path (snd (raises e j x s)) = docket_path s"
  "log_file (snd (raises e j x s)) = log_file s"
  "verbose (snd (raises e j x s)) = verbose s"
  "open_files (snd (raises e j x s)) = open_files s"
  "links (snd (raises e j x s)) = links s"
  by (cases j; simp add: log_frame raises.simps)+

lemma raises_fst: "fst (raises e j x s) = Failed x"
  by (cases j) (simp_all add: raises.simps)

lemma raises_log_len: "log_len s = 0 \<Longrightarrow> log_len (snd (raises e j x s)) = 0"
  by (cases j) (simp_all add: log_len_log raises.simps)

lemma raises_files: "log_len s = 0 \<Longrightarrow> files (snd (raises e j x s)) = files s"
  by (cases j) (simp_all add: log_no_flush raises.simps)

lemma after_write_frame:
  "failed_urls (snd (after_write e j d s)) = failed_urls s"
  "requests (snd (after_write e j d s)) = requests s"
  "defendant_path (snd (after_write e j d s)) = defendant_path s"
  "docket_path (snd (after_write e j d s)) = docket_path s"
  "log_file (snd (after_write e j d s)) = log_file s"
  "verbose (snd (after_write e j d s)) = verbose s"
  "open_files (snd (after_write e j d s)) = open_files s"
  by (cases j; cases d; simp add: raises_frame after_write.simps split: sum.splits)+

lemma after_write_log_len: "log_len s = 0 \<Longrightarrow> log_len (snd (after_write e j d s)) = 0"
  by (cases j; cases d; simp add: raises_log_len after_write.simps split: sum.splits)

lemma after_write_files: "log_len s = 0 \<Longrightarrow> files (snd (after_write e j d s)) = files s"
  by (cases j; cases d; simp add: raises_files after_write.simps split: sum.splits)

lemma after_write_fst: "fst (after_write e j d s) = Done \<or> (\<exists>x. fst (after_write e j d s) = Failed x)"
  by (cases j; cases d; simp add: raises_fst after_write.simps split: sum.splits)


lemma open_wb_frame:
  "failed_urls (open_wb f s) = failed_urls s"
  "requests (open_wb f s) = requests s"
  "defendant_path (open_wb f s) = defendant_path s"
  "docket_path (open_wb f s) = docket_path s"
  "log_file (open_wb f s) = log_file s"
  "verbose (open_wb f s) = verbose s"
  "log_len (open_wb f s) = log_len s"
  "links (open_wb f s) = links s"
  by (simp_all add: open_wb_def put_file_def)

lemma close_file_frame:
  "failed_urls (close_file f s) = failed_urls s"
  "requests (close_file f s) = requests s"
  "defendant_path (close_file f s) = defendant_path s"
  "docket_path (close_file f s) = docket_path s"
  "log_file (close_file f s) = log_file s"
  "verbose (close_file f s) = verbose s"
  "log_len (close_file f s) = log_len s"
  "files (close_file f s) = files s"
  "links (close_file f s) = links s"
  by (simp_all add: close_file_def)

lemmas step_frame = log_frame raises_frame after_write_frame open_wb_frame close_file_frame
  put_file_frame

lemma resume_frame:
  "defendant_path (snd (resume e j pc s)) = defendant_path s"
  "docket_path (snd (resume e j pc s)) = docket_path s"
  "log_file (snd (resume e j pc s)) = log_file s"
  "verbose (snd (resume e j pc s)) = verbose s"
  by (cases pc; simp add: resume.simps Let_def step_frame
      split: response.splits option.splits io_fault.splits sum.splits)+


lemma resume_log_len: "log_len s = 0 \<Longrightarrow> log_len (snd (resume e j pc s)) = 0"
  by (cases pc; simp add: resume.simps Let_def log_len_log raises_log_len after_write_log_len step_frame
      split: response.splits option.splits io_fault.splits sum.splits)

lemma resume_requests:
  "requests (snd (resume e j pc s)) = requests s @ (if pc = Fetching then [job_url j] else [])"
  by (cases pc; simp add: resume.simps Let_def step_frame
      split: response.splits option.splits io_fault.splits sum.splits)

text \<open>
  A task that runs alone does what the coroutine does when it is awaited by itself.
\<close>

lemma job_file_frame:
  "defendant_path s' = defendant_path s \<Longrightarrow> docket_path s' = docket_path s \<Longrightarrow>
   job_file s' j = job_file s j"
  by (cases j) simp_all

lemma job_file_simps:
  "job_file (log e m s) j = job_file s j"
  "job_file (open_wb f s) j = job_file s j"
  "job_file (put_file f b s) j = job_file s j"
  "job_file (close_file f s) j = job_file s j"
  "job_file (s\<lparr>requests := r\<rparr>) j = job_file s j"
  by (rule job_file_frame; simp add: step_frame)+

lemma defendant_task_alone:
  "download_defendant_data e defendant s = alone e (Defendant defendant) s"
  by (auto simp add: download_defendant_data_def download_defendant_def download_item_def
      write_data_def alone_def start_task_def resume.simps Let_def step_frame job_file_simps raises.simps
      after_write.simps
      split: response.splits option.splits io_fault.splits sum.splits prod.splits)

lemma sheet_task_alone:
  "download_sheet_data e link s = alone e (Sheet link) s"
  by (auto simp add: download_sheet_data_def download_sheet_def download_item_def
      write_data_def alone_def start_task_def resume.simps Let_def step_frame job_file_simps raises.simps
      after_write.simps
      split: response.splits option.splits io_fault.splits sum.splits prod.splits)


lemma resume_task_alt:
  "resume_task e jobs i c =
     (if i < length jobs \<and> i < length (fst c)
      then ((fst c)[i := fst (resume e (jobs ! i) (fst c ! i) (snd (snd c)))],
            (case fst (snd c) of
               None \<Rightarrow> (case fst (resume e (jobs ! i) (fst c ! i) (snd (snd c))) of
                          Failed x \<Rightarrow> Some x | _ \<Rightarrow> None)
             | Some y \<Rightarrow> Some y),
            snd (resume e (jobs ! i) (fst c ! i) (snd (snd c))))
      else c)"
  by (cases c) (auto simp add: resume_task_def split: prod.splits option.splits)

lemma start_tasks_frame:
  "requests (fold (start_task e) jobs s) = requests s"
  "failed_urls (fold (start_task e) jobs s) = failed_urls s"
  by (induction jobs arbitrary: s) (simp_all add: start_task_def log_frame)

section \<open>The failed-URL list\<close>

lemma historyI:
  assumes "requests s' = requests s @ new"
    and "(\<forall>u\<in>set new. \<not> fails_fatally e u) \<Longrightarrow>
         failed_urls s' = failed_urls s @ filter (fails_recoverably e) new"
  shows "history e s s'"
  using assms by (simp add: history_def list_all_iff)

lemma historyD:
  assumes "history e s s'"
  shows "\<exists>new. requests s' = requests s @ new
     \<and> ((\<forall>u\<in>set new. \<not> fails_fatally e u) \<longrightarrow>
          failed_urls s' = failed_urls s @ filter (fails_recoverably e) new)"
proof -
  from assms obtain new where n: "requests s' = requests s @ new"
    by (auto simp add: history_def prefix_def)
  with assms show ?thesis by (auto simp add: history_def list_all_iff Let_def)
qed

lemma history_same:
  "requests s' = requests s \<Longrightarrow> failed_urls s' = failed_urls s \<Longrightarrow> history e s s'"
  by (rule historyI[where new = "[]"]) simp_all

lemma history_trans:
  assumes "history e s s'" and "history e s' s''"
  shows "history e s s''"
proof -
  from historyD[OF assms(1)] obtain n1 where 1: "requests s' = requests s @ n1"
    "(\<forall>u\<in>set n1. \<not> fails_fatally e u) \<longrightarrow>
          failed_urls s' = failed_urls s @ filter (fails_recoverably e) n1" by blast
  from historyD[OF assms(2)] obtain n2 where 2: "requests s'' = requests s' @ n2"
    "(\<forall>u\<in>set n2. \<not> fails_fatally e u) \<longrightarrow>
          failed_urls s'' = failed_urls s' @ filter (fails_recoverably e) n2" by blast
  show ?thesis
    by (rule historyI[where new = "n1 @ n2"]) (use 1 2 in auto)
qed

lemma history_log: "history e s (log e m s)"
  by (rule history_same) (simp_all add: log_frame)

lemma resume_failed_urls:
  "\<not> (pc = Fetching \<and> fails_fatally e (job_url j)) \<Longrightarrow>
   failed_urls (snd (resume e j pc s)) =
     failed_urls s @ (if pc = Fetching \<and> fails_recoverably e (job_url j) then [job_url j] else [])"
  by (cases pc; auto simp add: resume.simps Let_def step_frame fails_fatally_def fails_recoverably_def
      split: response.splits option.splits io_fault.splits sum.splits)

lemma history_resume: "history e s (snd (resume e j pc s))"
  by (rule historyI[where new = "if pc = Fetching then [job_url j] else []"])
     (auto simp add: resume_requests resume_failed_urls)

lemma history_resume_task:
  "history e (snd (snd c)) (snd (snd (resume_task e jobs i c)))"
proof (cases c)
  case (fields pcs raised s)
  show ?thesis
  proof (cases "i < length jobs \<and> i < length pcs")
    case True
    then show ?thesis
      using history_resume[of e s "jobs ! i" "pcs ! i"]
      by (auto simp add: fields resume_task_def split: prod.splits)
  next
    case False
    then show ?thesis by (auto simp add: fields resume_task_def history_same)
  qed
qed

lemma history_fold_resume:
  "history e (snd (snd c)) (snd (snd (fold (resume_task e jobs) sched c)))"
proof (induction sched arbitrary: c)
  case Nil
  show ?case by (simp add: history_same)
next
  case (Cons i sched)
  show ?case
    using history_trans[OF history_resume_task[of e c jobs i] Cons[of "resume_task e jobs i c"]]
    by simp
qed

lemma history_finish_all:
  "history e (snd (snd c)) (snd (snd (finish_all e jobs sched c)))"
proof (induction sched arbitrary: c)
  case Nil
  show ?case by (simp add: history_same)
next
  case (Cons i sched)
  obtain pcs raised s where c: "c = (pcs, raised, s)" by (cases c)
  show ?case
  proof (cases raised)
    case None
    show ?thesis
      using history_trans[OF history_resume_task[of e c jobs i] Cons[of "resume_task e jobs i c"]]
      by (simp add: c None)
  next
    case (Some x)
    then show ?thesis by (simp add: c history_same)
  qed
qed

lemma history_start: "history e s (fold (start_task e) jobs s)"
proof (induction jobs arbitrary: s)
  case Nil
  show ?case by (simp add: history_same)
next
  case (Cons j jobs)
  have "history e s (start_task e j s)" by (simp add: start_task_def history_log)
  from history_trans[OF this Cons[of "start_task e j s"]] show ?case by simp
qed

lemma history_fan_out_after:
  "history e s (snd (snd (fan_out_after e jobs sched s)))"
  unfolding fan_out_after_def
  using history_fold_resume[of e "(map (\<lambda>j. Fetching) jobs, None, fold (start_task e) jobs s)" jobs sched]
  by (simp add: history_trans[OF history_start[of e s jobs]])

lemma history_gather:
  "history e s (snd (snd (gather e jobs sched s)))"
proof -
  have "history e s (snd (snd (finish_all e jobs (concat (map (replicate 4) [0..<length jobs]))
             (fan_out_after e jobs sched s))))"
    by (rule history_trans[OF history_fan_out_after history_finish_all])
  then show ?thesis by (auto simp add: gather_def split: prod.splits)
qed

lemma history_munch_defendants:
  "history e s (snd (munch_defendants e ds s))"
proof -
  let ?s1 = "log e ''Munching started'' s"
  obtain pcs r s2 where g: "gather e (map Defendant ds) (defendant_schedule e) ?s1 = (pcs, r, s2)"
    by (cases "gather e (map Defendant ds) (defendant_schedule e) ?s1")
  have h2: "history e s s2"
    using history_trans[OF history_log[of e s "''Munching started''"]
        history_gather[of e ?s1 "map Defendant ds" "defendant_schedule e"]] g by simp
  show ?thesis
  proof (cases r)
    case (Inl x)
    then show ?thesis using h2 by (simp add: munch_defendants_def Let_def g)
  next
    case (Inr u)
    obtain pcs' r' s3 where g': "gather e (map Sheet (set_order e (links s2))) (sheet_schedule e) s2
        = (pcs', r', s3)"
      by (cases "gather e (map Sheet (set_order e (links s2))) (sheet_schedule e) s2")
    have h3: "history e s s3"
      using history_trans[OF h2 history_gather[of e s2 "map Sheet (set_order e (links s2))"
            "sheet_schedule e"]] g' by simp
    have h4: "history e s3 (log e ''Munching completed'' (s3\<lparr>links := {}\<rparr>))"
      by (rule history_same) (simp_all add: log_frame)
    show ?thesis
      using h3 history_trans[OF h3 h4]
      by (cases r') (simp_all add: munch_defendants_def Let_def g g' Inr)
  qed
qed

lemma history_write_log: "history e s (write_log s)"
  by (rule history_same) (simp_all add: write_log_def append_file_def put_file_def Let_def)

lemma history_munch_body: "history e s (snd (munch_body e start stop s))"
  by (auto simp add: munch_body_def munch_missing_def history_munch_defendants history_same
      split: sum.splits bool.splits)

lemma history_munch: "history e s (munch e start stop v s)"
proof -
  let ?s0 = "s\<lparr>verbose := v\<rparr>"
  have h0: "history e s ?s0" by (rule history_same) simp_all
  obtain r s1 where b: "munch_body e start stop ?s0 = (r, s1)"
    by (cases "munch_body e start stop ?s0")
  have h1: "history e s s1"
    using history_trans[OF h0 history_munch_body[of e ?s0 start stop]] b by simp
  show ?thesis
  proof (cases r)
    case (Inl x)
    have "history e s1 (write_log (write_log (log e (''Munching cancelled due to exception: ''
                                          @ exn_text x) s1)))"
      by (rule history_trans[OF history_log history_trans[OF history_write_log history_write_log]])
    from history_trans[OF h1 this] show ?thesis
      by (simp add: munch_def Let_def b Inl)
  next
    case (Inr u)
    from history_trans[OF h1 history_write_log[of e s1]] show ?thesis
      by (simp add: munch_def Let_def b Inr)
  qed
qed


text \<open>
  C5, as amended. At every point of a fan-out, after whatever resumptions, and at the
  end of a run of \<open>munch\<close>, however it ends: as long as no GET has ended in an exception
  other than a timeout or a client error, the failed-URL list is what it was, followed
  by the URLs whose GET has ended in a timeout or a client error, one entry for each
  such end of a GET.
\<close>

theorem failed_urls_of_run:
  "(\<exists>new. requests (snd (snd (fan_out_after e jobs sched s))) = requests s @ new
      \<and> ((\<forall>u\<in>set new. \<not> fails_fatally e u) \<longrightarrow>
           failed_urls (snd (snd (fan_out_after e jobs sched s)))
             = failed_urls s @ filter (fails_recoverably e) new))
   \<and> (\<exists>new. requests (munch e start stop v s) = requests s @ new
      \<and> ((\<forall>u\<in>set new. \<not> fails_fatally e u) \<longrightarrow>
           failed_urls (munch e start stop v s)
             = failed_urls s @ filter (fails_recoverably e) new))"
  using historyD[OF history_fan_out_after[of e s jobs sched]]
    historyD[OF history_munch[of e s start stop v]]
  by blast

theorem failed_urls_of_run_witness:
  "(\<forall>u. \<not> fails_fatally env_timeout u)
   \<and> requests (snd (snd (fan_out_after env_timeout [Defendant 100003, Defendant 100001] [1, 0]
                           (init_default []))))
       = [def_url @ ''100001'', def_url @ ''100003'']
   \<and> failed_urls (snd (snd (fan_out_after env_timeout [Defendant 100003, Defendant 100001] [1, 0]
                              (init_default []))))
       = [def_url @ ''100003'']
   \<and> failed_urls (munch env_timeout 100003 100004 False (init_default []))
       = filter (fails_recoverably env_timeout)
           (requests (munch env_timeout 100003 100004 False (init_default [])))"
proof -
  let ?c = "fan_out_after env_timeout [Defendant 100003, Defendant 100001] [1, 0] (init_default [])"
  have nf: "\<not> fails_fatally env_timeout u" for u
    by (simp add: fails_fatally_def env_timeout_def timeout_error_def)
  have i: "requests (init_default []) = []" "failed_urls (init_default []) = []"
    by (simp_all add: init_default_def init_def)
  have str: "str_int 100003 = ''100003''" "str_int 100001 = ''100001''"
    by (simp_all add: str_int_def str_nat.simps digit_char_def)
  have rq: "requests (snd (snd ?c)) = [def_url @ ''100001'', def_url @ ''100003'']"
    by (simp add: fan_out_after_def resume_task_alt resume_requests start_task_def log_frame
        i str)
  have fr: "filter (fails_recoverably env_timeout) [def_url @ ''100001'', def_url @ ''100003'']
      = [def_url @ ''100003'']"
    by (simp add: fails_recoverably_def env_timeout_def timeout_error_def def_url_def)
  note run = failed_urls_of_run[of env_timeout "[Defendant 100003, Defendant 100001]" "[1, 0]"
      "init_default []" 100003 100004 False]
  from run obtain new where
    a: "requests (snd (snd ?c)) = requests (init_default []) @ new"
    and b: "(\<forall>u\<in>set new. \<not> fails_fatally env_timeout u) \<longrightarrow>
       failed_urls (snd (snd ?c))
         = failed_urls (init_default []) @ filter (fails_recoverably env_timeout) new"
    by blast
  from a rq have n: "new = [def_url @ ''100001'', def_url @ ''100003'']"
    by (simp only: i append_Nil)
  from b nf have "failed_urls (snd (snd ?c))
      = failed_urls (init_default []) @ filter (fails_recoverably env_timeout) new"
    by blast
  then have fu: "failed_urls (snd (snd ?c)) = [def_url @ ''100003'']"
    by (simp only: n fr i append_Nil)
  from run obtain new' where
    a': "requests (munch env_timeout 100003 100004 False (init_default []))
       = requests (init_default []) @ new'"
    and b': "(\<forall>u\<in>set new'. \<not> fails_fatally env_timeout u) \<longrightarrow>
       failed_urls (munch env_timeout 100003 100004 False (init_default []))
         = failed_urls (init_default []) @ filter (fails_recoverably env_timeout) new'"
    by blast
  from b' nf have "failed_urls (munch env_timeout 100003 100004 False (init_default []))
       = failed_urls (init_default []) @ filter (fails_recoverably env_timeout) new'"
    by blast
  with a' have fm: "failed_urls (munch env_timeout 100003 100004 False (init_default []))
       = filter (fails_recoverably env_timeout)
           (requests (munch env_timeout 100003 100004 False (init_default [])))"
    by (simp only: i append_Nil)
  show ?thesis
    by (intro conjI allI) (rule nf rq fu fm)+
qed

text \<open>
  C5, as stated, fails: after a fetch that ends in an unexpected error the list holds
  the characters of the URL, one entry each, although no fetch failed with a timeout or
  a client error.
\<close>

theorem fatal_url_spread_over_failed_urls:
  "http_get env_ex (def_url @ str_int 100002) = Raises other_error
   \<and> exn_kind other_error = OtherKind
   \<and> failed_urls (init_default []) = []
   \<and> failed_urls (snd (download_item env_ex def_url (PyInt 100002) (init_default [])))
       = map (\<lambda>c. [c]) (def_url @ ''100002'')
   \<and> failed_urls (snd (resume env_ex (Defendant 100002) Fetching (init_default [])))
       = map (\<lambda>c. [c]) (def_url @ ''100002'')
   \<and> ''h'' \<in> set (failed_urls (snd (download_item env_ex def_url (PyInt 100002) (init_default []))))"
proof -
  have s: "str_int 100002 = ''100002''" by (simp add: str_int_def str_nat.simps digit_char_def)
  have g: "http_get env_ex (def_url @ py_str (PyInt 100002)) = Raises other_error"
    by (simp add: s env_ex_def def_url_def)
  have k: "\<not> (exn_kind other_error = TimeoutKind \<or> exn_kind other_error = ClientKind)"
    by (simp add: other_error_def)
  have f: "failed_urls (snd (download_item env_ex def_url (PyInt 100002) (init_default [])))
      = failed_urls (init_default []) @ map (\<lambda>c. [c]) (def_url @ py_str (PyInt 100002))"
    unfolding download_item_fatal[OF g k] by (simp add: log_frame)
  have f2: "failed_urls (snd (resume env_ex (Defendant 100002) Fetching (init_default [])))
      = failed_urls (init_default []) @ map (\<lambda>c. [c]) (def_url @ py_str (PyInt 100002))"
    using g k by (simp add: resume.simps Let_def raises_frame log_frame)
  have i: "failed_urls (init_default []) = []" by (simp add: init_default_def init_def)
  have h: "''h'' \<in> set (map (\<lambda>c. [c]) (def_url @ ''100002''))" by (simp add: def_url_def)
  show ?thesis
    using g k h by (simp add: f f2 i s other_error_def)
qed

(*C2HERE*)

section \<open>Chunks of a string\<close>

lemma concat_chunks:
  "length s \<le> n * c \<Longrightarrow> concat (map (\<lambda>i. take c (drop (i * c) s)) [0..<n]) = s"
proof (induction n arbitrary: s)
  case 0
  then show ?case by simp
next
  case (Suc n)
  have "[0..<Suc n] = 0 # map Suc [0..<n]"
    by (simp add: upt_conv_Cons map_Suc_upt del: upt_Suc)
  then have "concat (map (\<lambda>i. take c (drop (i * c) s)) [0..<Suc n])
      = take c s @ concat (map (\<lambda>i. take c (drop (i * c) (drop c s))) [0..<n])"
    by (simp add: comp_def add.commute del: upt_Suc)
  also have "concat (map (\<lambda>i. take c (drop (i * c) (drop c s))) [0..<n]) = drop c s"
    using Suc.prems by (intro Suc.IH) simp
  finally show ?case by simp
qed

lemma n_chunks_bounds:
  fixes c :: nat and l :: nat
  assumes "0 < c"
  defines "n \<equiv> (if l mod c = 0 then l div c else l div c + 1)"
  shows "l \<le> n * c" and "i < n \<Longrightarrow> i * c < l"
proof -
  have l: "l = (l div c) * c + l mod c" by simp
  have m: "l mod c < c" using assms(1) by simp
  show "l \<le> n * c"
  proof (cases "l mod c = 0")
    case True
    then show ?thesis using l by (simp add: n_def)
  next
    case False
    have "l < (l div c) * c + c" using l m by linarith
    then show ?thesis using False by (simp add: n_def)
  qed
  show "i * c < l" if "i < n"
  proof (cases "l mod c = 0")
    case True
    with that have "i < l div c" by (simp add: n_def)
    then have "Suc i \<le> l div c" by simp
    then have "Suc i * c \<le> (l div c) * c" by (rule mult_le_mono1)
    with l True assms(1) show ?thesis by simp
  next
    case False
    with that have "i \<le> l div c" by (simp add: n_def)
    then have "i * c \<le> (l div c) * c" by (rule mult_le_mono1)
    with l False show ?thesis by linarith
  qed
qed

text \<open>
  For a positive chunk size the chunks, put together in order, are the string; no chunk
  is empty and none is longer than the chunk size.
\<close>

theorem chunk_string_partitions:
  assumes "0 < chunk_size"
  shows "\<exists>chunks. chunk_string s chunk_size = Some chunks \<and> concat chunks = s
     \<and> (\<forall>c\<in>set chunks. c \<noteq> [] \<and> int (length c) \<le> chunk_size)"
proof -
  define c where "c = nat chunk_size"
  define n where "n = (if length s mod c = 0 then length s div c else length s div c + 1)"
  have c: "0 < c" "chunk_size = int c" using assms by (simp_all add: c_def)
  have nn: "nat (if int (length s) mod chunk_size = 0 then int (length s) div chunk_size
                 else int (length s) div chunk_size + 1) = n"
    unfolding c(2) n_def
    by (simp add: zmod_int[symmetric] zdiv_int[symmetric] nat_add_distrib del: of_nat_mod of_nat_div)
  have cs: "chunk_string s chunk_size = Some (map (\<lambda>i. take c (drop (i * c) s)) [0..<n])"
    using assms by (simp add: chunk_string_def Let_def nn c_def[symmetric])
  have b: "length s \<le> n * c"
    using n_chunks_bounds(1)[OF c(1), where l = "length s"] unfolding n_def by simp
  have b2: "i * c < length s" if "i < n" for i
    using n_chunks_bounds(2)[OF c(1), where l = "length s" and i = i] that
    unfolding n_def by simp
  have "concat (map (\<lambda>i. take c (drop (i * c) s)) [0..<n]) = s"
    by (rule concat_chunks[OF b])
  moreover have "\<forall>k\<in>set (map (\<lambda>i. take c (drop (i * c) s)) [0..<n]).
      k \<noteq> [] \<and> int (length k) \<le> chunk_size"
  proof
    fix k assume "k \<in> set (map (\<lambda>i. take c (drop (i * c) s)) [0..<n])"
    then obtain i where i: "i < n" "k = take c (drop (i * c) s)" by auto
    from b2[OF i(1)] have "drop (i * c) s \<noteq> []" by simp
    with c(1) have "k \<noteq> []" by (simp add: i(2))
    moreover have "int (length k) \<le> chunk_size" by (simp add: i(2) c(2))
    ultimately show "k \<noteq> [] \<and> int (length k) \<le> chunk_size" by simp
  qed
  ultimately show ?thesis using cs by blast
qed

theorem chunk_string_partitions_witness:
  "chunk_string ''abcdefg'' 3 = Some [''abc'', ''def'', ''g'']
   \<and> concat [''abc'', ''def'', ''g''] = ''abcdefg''"
proof -
  have e: "chunk_string ''abcdefg'' 3 = Some [''abc'', ''def'', ''g'']"
    by (simp add: chunk_string_def Let_def upt_rec)
  have p: "(0::int) < 3" by simp
  show ?thesis using chunk_string_partitions[OF p, of "''abcdefg''"] e by simp
qed

end
